theory Spec2Isabelle
  imports Complex_Main "HOL-Library.Word"
begin

section \<open>Numbers\<close>

text \<open>
  A JavaScript \<open>number\<close> is an IEEE 754 double. In the colour-space conversions and in the
  harmony generator every \<open>+\<close>, \<open>-\<close>, \<open>*\<close> and \<open>/\<close> of the source is modelled with its
  rounding: the operands are reals that stand for doubles, the exact result is taken in the
  reals and then rounded by \<open>fl\<close> to the nearest double, a tie going to the even
  significand. The operations are applied in the order in which the source evaluates them.
  Comparisons, \<open>Math.max\<close>, \<open>Math.min\<close>, \<open>Math.floor\<close>, \<open>Math.ceil\<close>, \<open>Math.round\<close> and
  \<open>%\<close> are exact on doubles and carry no rounding. \<open>Math.round\<close> rounds a half upwards, as
  \<^const>\<open>round\<close> does (\<open>round x = \<lfloor>x + 1/2\<rfloor>\<close>). Overflow to \<open>Infinity\<close> is not modelled: it
  needs a magnitude above \<open>10^308\<close>.

  A number that the source obtains from \<open>Math.round\<close>, from a byte of the pixel buffer or from
  a loop counter is an \<^typ>\<open>int\<close> or a \<^typ>\<open>nat\<close>. The dominant-colour extraction computes
  with such integers; its square roots, quotients and products are taken in the reals, the
  properties stated about it being about the number of entries, the indices read and the
  fields derived by the conversions.
\<close>

definition rne :: "real \<Rightarrow> int" where
  \<comment> \<open>The nearest integer, a tie going to the even one.\<close>
  "rne y = (let f = \<lfloor>y\<rfloor>; d = y - of_int f
            in if d < 1 / 2 then f else if d > 1 / 2 then f + 1
               else if even f then f else f + 1)"

definition ulpExp :: "real \<Rightarrow> int" where
  \<comment> \<open>The doubles of magnitude in \<open>[2^e, 2^(e+1))\<close> are the multiples of \<open>2^(e-52)\<close>;
      those below \<open>2^(-1022)\<close>, the subnormal ones, are the multiples of \<open>2^(-1074)\<close>.\<close>
  "ulpExp x = max \<lfloor>log 2 \<bar>x\<bar>\<rfloor> (- 1022) - 52"

definition fl :: "real \<Rightarrow> real" where
  \<comment> \<open>Rounding to the nearest double.\<close>
  "fl x = (if x = 0 then 0
           else of_int (rne (x / 2 powr of_int (ulpExp x))) * 2 powr of_int (ulpExp x))"

definition js_rem :: "real \<Rightarrow> real \<Rightarrow> real" where
  \<comment> \<open>The operator \<open>%\<close>: the remainder takes the sign of the dividend (the quotient is
      truncated towards zero). Only used with the divisor 360.\<close>
  "js_rem a n = a - n * of_int (if a / n < 0 then \<lceil>a / n\<rceil> else \<lfloor>a / n\<rfloor>)"

section \<open>Data model\<close>

record HSL =
  hsl_h :: int
  hsl_s :: int
  hsl_l :: int

record RGB =
  rgb_r :: int
  rgb_g :: int
  rgb_b :: int

text \<open>
  The interface \<open>Color\<close>. Every producer of a \<open>Color\<close> stores integers in \<open>r\<close>, \<open>g\<close>, \<open>b\<close>
  (results of \<open>Math.round\<close>, bytes, or \<open>Math.min(255, c + 30)\<close> of such); \<open>h\<close>, \<open>s\<close>, \<open>l\<close>
  of a base colour enter the harmony arithmetic as numbers. The optional field \<open>position\<close>
  is an \<open>option\<close>. The selectors carry the prefix \<open>c_\<close>, and those of the objects
  returned by the conversions the prefixes \<open>hsl_\<close> and \<open>rgb_\<close>, so that \<open>r\<close>, \<open>g\<close>,
  \<open>b\<close>, \<open>h\<close>, \<open>s\<close>, \<open>l\<close> stay free for variables.
\<close>

record Color =
  c_r :: int
  c_g :: int
  c_b :: int
  c_h :: real
  c_s :: real
  c_l :: real
  c_hex :: string
  c_position :: "(real \<times> real) option"

datatype HarmonyMode = Complementary | Analogous | Triadic | Tetradic | SplitComplementary

section \<open>Colour-space conversions\<close>

definition rgbToHsl :: "real \<Rightarrow> real \<Rightarrow> real \<Rightarrow> HSL" where
  \<comment> \<open>The \<open>switch (max)\<close> compares \<open>max\<close> with \<open>r\<close>, \<open>g\<close>, \<open>b\<close> in this order.
      \<open>2 - max - min\<close> is \<open>(2 - max) - min\<close>. For channels in \<open>[0, 255]\<close> with
      \<open>max \<noteq> min\<close> no divisor is \<open>0\<close>.\<close>
  "rgbToHsl r0 g0 b0 =
    (let r = fl (r0 / 255); g = fl (g0 / 255); b = fl (b0 / 255);
         mx = max r (max g b);
         mn = min r (min g b);
         l = fl (fl (mx + mn) / 2);
         (h, s) =
           (if mx \<noteq> mn then
              (let d = fl (mx - mn);
                   s = (if l > 1 / 2 then fl (d / fl (fl (2 - mx) - mn))
                        else fl (d / fl (mx + mn)));
                   h = (if mx = r then
                          fl (fl (fl (fl (g - b) / d) + (if g < b then 6 else 0)) / 6)
                        else if mx = g then fl (fl (fl (fl (b - r) / d) + 2) / 6)
                        else if mx = b then fl (fl (fl (fl (r - g) / d) + 4) / 6)
                        else 0)
               in (h, s))
            else (0, 0))
     in \<lparr>hsl_h = round (fl (h * 360)), hsl_s = round (fl (s * 100)),
         hsl_l = round (fl (l * 100))\<rparr>)"

definition hue2rgb :: "real \<Rightarrow> real \<Rightarrow> real \<Rightarrow> real" where
  \<comment> \<open>\<open>p + (q - p) * 6 * t\<close> is \<open>p + (((q - p) * 6) * t)\<close>, and
      \<open>p + (q - p) * (2 / 3 - t) * 6\<close> is \<open>p + (((q - p) * (2 / 3 - t)) * 6)\<close>.\<close>
  "hue2rgb p q t0 =
    (let t1 = (if t0 < 0 then fl (t0 + 1) else t0);
         t = (if t1 > 1 then fl (t1 - 1) else t1)
     in if t < fl (1 / 6) then fl (p + fl (fl (fl (q - p) * 6) * t))
        else if t < fl (1 / 2) then q
        else if t < fl (2 / 3) then fl (p + fl (fl (fl (q - p) * fl (fl (2 / 3) - t)) * 6))
        else p)"

definition hslToRgb :: "real \<Rightarrow> real \<Rightarrow> real \<Rightarrow> RGB" where
  \<comment> \<open>\<open>l + s - l * s\<close> is \<open>(l + s) - (l * s)\<close>.\<close>
  "hslToRgb h0 s0 l0 =
    (let h = fl (h0 / 360); s = fl (s0 / 100); l = fl (l0 / 100);
         (r, g, b) =
           (if s = 0 then (l, l, l)
            else
              (let q = (if l < 1 / 2 then fl (l * fl (1 + s)) else fl (fl (l + s) - fl (l * s)));
                   p = fl (fl (2 * l) - q)
               in (hue2rgb p q (fl (h + fl (1 / 3))), hue2rgb p q h,
                   hue2rgb p q (fl (h - fl (1 / 3))))))
     in \<lparr>rgb_r = round (fl (r * 255)), rgb_g = round (fl (g * 255)),
         rgb_b = round (fl (b * 255))\<rparr>)"

definition hexDigit :: "nat \<Rightarrow> char" where
  "hexDigit d = ''0123456789abcdef'' ! d"

fun toHexNat :: "nat \<Rightarrow> string" where
  "toHexNat n = (if n < 16 then [hexDigit n] else toHexNat (n div 16) @ [hexDigit (n mod 16)])"

declare toHexNat.simps [simp del]

definition toString16 :: "int \<Rightarrow> string" where
  \<comment> \<open>\<open>x.toString(16)\<close> of an integer \<open>x\<close>.\<close>
  "toString16 x = (if x < 0 then CHR ''-'' # toHexNat (nat (- x)) else toHexNat (nat x))"

definition padStart2 :: "string \<Rightarrow> string" where
  \<comment> \<open>\<open>.padStart(2, '0')\<close>\<close>
  "padStart2 str = replicate (2 - length str) CHR ''0'' @ str"

definition rgbToHex :: "int \<Rightarrow> int \<Rightarrow> int \<Rightarrow> string" where
  "rgbToHex r0 g0 b0 = CHR ''#'' # concat (map (\<lambda>x. padStart2 (toString16 x)) [r0, g0, b0])"

section \<open>Harmony generator\<close>

definition harmonyColor :: "real \<Rightarrow> real \<Rightarrow> real \<Rightarrow> Color" where
  \<comment> \<open>The body shared by the five loops: \<open>rgb = hslToRgb(newH, baseColor.s, newL)\<close>,
      \<open>hsl = rgbToHsl(rgb.r, rgb.g, rgb.b)\<close>, and the pushed object
      \<open>{...rgb, ...hsl, hex: rgbToHex(rgb.r, rgb.g, rgb.b)}\<close>.\<close>
  "harmonyColor newH sat newL =
    (let rgb = hslToRgb newH sat newL;
         hsl = rgbToHsl (of_int (rgb_r rgb)) (of_int (rgb_g rgb)) (of_int (rgb_b rgb))
     in \<lparr>c_r = rgb_r rgb, c_g = rgb_g rgb, c_b = rgb_b rgb,
         c_h = of_int (hsl_h hsl), c_s = of_int (hsl_s hsl), c_l = of_int (hsl_l hsl),
         c_hex = rgbToHex (rgb_r rgb) (rgb_g rgb) (rgb_b rgb),
         c_position = None\<rparr>)"

definition clampL :: "real \<Rightarrow> real" where
  \<comment> \<open>\<open>Math.max(10, Math.min(90, x))\<close>\<close>
  "clampL x = max 10 (min 90 x)"

definition bandL :: "Color \<Rightarrow> nat \<Rightarrow> nat \<Rightarrow> nat \<Rightarrow> real" where
  \<comment> \<open>The lightness of the triadic, tetradic and split-complementary loops, with
      \<open>n\<close> the number of hues:
      \<open>Math.floor(i / n) * (40 / Math.ceil(rings / n))\<close>, then \<open>baseColor.l + ... - 20\<close>, clamped.\<close>
  "bandL baseColor rings n i =
    (let lightnessVariation =
           fl (of_int \<lfloor>fl (real i / real n)\<rfloor> * fl (40 / of_int \<lceil>fl (real rings / real n)\<rceil>))
     in clampL (fl (fl (c_l baseColor + lightnessVariation) - 20)))"

definition ringColor :: "Color \<Rightarrow> nat \<Rightarrow> HarmonyMode \<Rightarrow> nat \<Rightarrow> Color" where
  \<comment> \<open>The colour pushed at loop index \<open>i\<close>, for each \<open>case\<close> of the \<open>switch\<close>.\<close>
  "ringColor baseColor rings mode i =
    (case mode of
       Complementary \<Rightarrow>
         (let lightnessVariation = fl (fl (real i - fl (real rings / 2)) * fl (60 / real rings));
              newL = clampL (fl (c_l baseColor + lightnessVariation));
              newH = js_rem (fl (c_h baseColor + 180)) 360
          in harmonyColor newH (c_s baseColor) newL)
     | Analogous \<Rightarrow>
         (let hueOffset = fl (fl (fl (real i - fl (real rings / 2)) * 60) / real rings);
              newH = js_rem (fl (fl (c_h baseColor + hueOffset) + 360)) 360;
              lightnessVariation = (if i mod 2 = 0 then 10 else - 10);
              newL = clampL (fl (c_l baseColor + lightnessVariation))
          in harmonyColor newH (c_s baseColor) newL)
     | Triadic \<Rightarrow>
         (let triadicHues = [0, 120, 240];
              hueIndex = i mod 3;
              newH = js_rem (fl (c_h baseColor + triadicHues ! hueIndex)) 360
          in harmonyColor newH (c_s baseColor) (bandL baseColor rings 3 i))
     | Tetradic \<Rightarrow>
         (let tetradicHues = [0, 90, 180, 270];
              hueIndex = i mod 4;
              newH = js_rem (fl (c_h baseColor + tetradicHues ! hueIndex)) 360
          in harmonyColor newH (c_s baseColor) (bandL baseColor rings 4 i))
     | SplitComplementary \<Rightarrow>
         (let splitHues = [0, 150, 210];
              hueIndex = i mod 3;
              newH = js_rem (fl (c_h baseColor + splitHues ! hueIndex)) 360
          in harmonyColor newH (c_s baseColor) (bandL baseColor rings 3 i)))"

definition generateComplementaryColors :: "Color \<Rightarrow> nat \<Rightarrow> HarmonyMode \<Rightarrow> Color list" where
  \<comment> \<open>Each loop runs \<open>i = 0, ..., rings - 1\<close> and pushes one colour; the result is
      \<open>colors.slice(0, rings)\<close>.\<close>
  "generateComplementaryColors baseColor rings mode =
     take rings (map (ringColor baseColor rings mode) [0..<rings])"

section \<open>Dominant-colour extraction\<close>

subsection \<open>Distances and the random source\<close>

text \<open>
  A pixel or centroid is the array \<open>[r, g, b]\<close> of the source, here a triple. Its channels
  are integers: bytes of the buffer, rounded means, or \<open>Math.min(255, c + 30)\<close>.
\<close>

type_synonym pixel = "int \<times> int \<times> int"

definition colorDistance :: "pixel \<Rightarrow> pixel \<Rightarrow> real" where
  "colorDistance color1 color2 =
    (case color1 of (r1, g1, b1) \<Rightarrow> case color2 of (r2, g2, b2) \<Rightarrow>
       sqrt ((of_int r1 - of_int r2)\<^sup>2 + (of_int g1 - of_int g2)\<^sup>2 + (of_int b1 - of_int b2)\<^sup>2))"

text \<open>The running minima of the source start at \<open>Infinity\<close>.\<close>

datatype extnum = Infinity | Num real

fun ext_less :: "extnum \<Rightarrow> extnum \<Rightarrow> bool" where
  "ext_less (Num x) (Num y) = (x < y)"
| "ext_less (Num x) Infinity = True"
| "ext_less Infinity _ = False"

fun ext_min :: "extnum \<Rightarrow> extnum \<Rightarrow> extnum" where
  "ext_min (Num x) (Num y) = Num (min x y)"
| "ext_min (Num x) Infinity = Num x"
| "ext_min Infinity e = e"

text \<open>
  \<open>Math.random()\<close> returns some number in \<open>[0, 1)\<close>. The calls are numbered in the order
  the source makes them, and the \<open>n\<close>-th call returns the fractional part of an arbitrary
  oracle value, which ranges over exactly \<open>[0, 1)\<close>. The counter is threaded through every
  function that draws a random number.
\<close>

type_synonym random = "nat \<Rightarrow> real"

definition randomIndex :: "random \<Rightarrow> nat \<Rightarrow> nat \<Rightarrow> nat" where
  \<comment> \<open>\<open>Math.floor(Math.random() * len)\<close>\<close>
  "randomIndex rnd n len = nat \<lfloor>frac (rnd n) * real len\<rfloor>"

subsection \<open>Seeding\<close>

definition minDistToExisting :: "pixel \<Rightarrow> pixel list \<Rightarrow> extnum" where
  "minDistToExisting candidate centroids =
     fold (\<lambda>centroid m. ext_min m (Num (colorDistance candidate centroid))) centroids Infinity"

definition tryCandidate ::
  "random \<Rightarrow> pixel list \<Rightarrow> pixel list \<Rightarrow> pixel option \<times> extnum \<times> nat \<Rightarrow> pixel option \<times> extnum \<times> nat" where
  \<comment> \<open>One round of the loop over \<open>tries\<close>; the state is
      \<open>(bestCandidate, maxMinDistance, counter of Math.random)\<close>.\<close>
  "tryCandidate rnd pixels centroids st =
    (case st of (bestCandidate, maxMinDistance, n) \<Rightarrow>
       (let candidate = pixels ! randomIndex rnd n (length pixels);
            m = minDistToExisting candidate centroids
        in if ext_less maxMinDistance m then (Some candidate, m, Suc n)
           else (bestCandidate, maxMinDistance, Suc n)))"

function seedCentroids ::
  "random \<Rightarrow> pixel list \<Rightarrow> nat \<Rightarrow> pixel list \<Rightarrow> nat \<Rightarrow> pixel list \<times> nat" where
  "seedCentroids rnd pixels k centroids n =
    (if length centroids < k then
       (case ((tryCandidate rnd pixels centroids) ^^ 50) (None, Num 0, n) of
          (Some bestCandidate, mm, n') \<Rightarrow>
            seedCentroids rnd pixels k (centroids @ [bestCandidate]) n'
        | (None, mm, n') \<Rightarrow>
            seedCentroids rnd pixels k
              (centroids @ [pixels ! randomIndex rnd n' (length pixels)]) (Suc n'))
     else (centroids, n))"
  by pat_completeness auto
termination
  by (relation "measure (\<lambda>(rnd, pixels, k, centroids, n). k - length centroids)") auto

declare seedCentroids.simps [simp del]

definition initializeDistinctCentroids ::
  "random \<Rightarrow> pixel list \<Rightarrow> nat \<Rightarrow> nat \<Rightarrow> pixel list \<times> nat" where
  "initializeDistinctCentroids rnd pixels k n =
     seedCentroids rnd pixels k [pixels ! randomIndex rnd n (length pixels)] (Suc n)"

subsection \<open>Clustering\<close>

definition closestCentroid :: "pixel \<Rightarrow> pixel list \<Rightarrow> nat" where
  \<comment> \<open>The inner \<open>forEach\<close> over the centroids; the state is \<open>(minDist, closestCentroid)\<close>.\<close>
  "closestCentroid pixel centroids =
     snd (fold (\<lambda>(idx, centroid) (minDist, closest).
                  (let dist = Num (colorDistance pixel centroid)
                   in if ext_less dist minDist then (dist, idx) else (minDist, closest)))
               (enumerate 0 centroids) (Infinity, 0))"

definition assignPixels :: "pixel list \<Rightarrow> pixel list \<Rightarrow> nat \<Rightarrow> pixel list list \<times> nat list" where
  \<comment> \<open>\<open>clusters[closestCentroid].push(pixel); assignments[pixelIdx] = closestCentroid\<close>
      for every pixel in order. The source overwrites every cell of \<open>assignments\<close> in each
      iteration; here the array is built afresh.\<close>
  "assignPixels pixels centroids k =
     fold (\<lambda>pixel (clusters, assignments).
             (let c = closestCentroid pixel centroids
              in (clusters[c := clusters ! c @ [pixel]], assignments @ [c])))
          pixels (replicate k [], [])"

definition updateCentroid :: "random \<Rightarrow> pixel list \<Rightarrow> pixel list \<Rightarrow> nat \<Rightarrow> pixel \<times> nat" where
  "updateCentroid rnd pixels cluster n =
    (if length cluster = 0 then (pixels ! randomIndex rnd n (length pixels), Suc n)
     else
       (let sum = fold (\<lambda>pixel acc.
                          (case pixel of (pr, pg, pb) \<Rightarrow> case acc of (a0, a1, a2) \<Rightarrow>
                             (a0 + pr, a1 + pg, a2 + pb)))
                       cluster (0, 0, 0)
        in case sum of (s0, s1, s2) \<Rightarrow>
             ((round (of_int s0 / real (length cluster)),
               round (of_int s1 / real (length cluster)),
               round (of_int s2 / real (length cluster))), n)))"

fun updateCentroids :: "random \<Rightarrow> pixel list \<Rightarrow> pixel list list \<Rightarrow> nat \<Rightarrow> pixel list \<times> nat" where
  "updateCentroids rnd pixels [] n = ([], n)"
| "updateCentroids rnd pixels (cluster # clusters) n =
    (case updateCentroid rnd pixels cluster n of
       (c, n') \<Rightarrow> (case updateCentroids rnd pixels clusters n' of
                     (cs, n'') \<Rightarrow> (c # cs, n'')))"

definition kmeansIteration ::
  "random \<Rightarrow> pixel list \<Rightarrow> nat \<Rightarrow> pixel list \<times> nat list \<times> nat \<Rightarrow> pixel list \<times> nat list \<times> nat" where
  \<comment> \<open>One of the 15 iterations; the state is \<open>(centroids, assignments, counter)\<close>.\<close>
  "kmeansIteration rnd pixels k st =
    (case st of (centroids, assignments, n) \<Rightarrow>
       (case assignPixels pixels centroids k of
          (clusters, assignments') \<Rightarrow>
            (case updateCentroids rnd pixels clusters n of
               (centroids', n') \<Rightarrow> (centroids', assignments', n'))))"

subsection \<open>Distinctness\<close>

definition isDistinct :: "pixel \<Rightarrow> pixel list \<Rightarrow> real \<Rightarrow> bool" where
  "isDistinct color existingColors minDistance =
     list_all (\<lambda>existing. \<not> colorDistance color existing < minDistance) existingColors"

fun countColor :: "pixel \<Rightarrow> (pixel \<times> nat) list \<Rightarrow> (pixel \<times> nat) list" where
  \<comment> \<open>\<open>colorCounts.set(key, (colorCounts.get(key) || 0) + 1)\<close> on a \<open>Map\<close>, which keeps
      its keys in the order of their first insertion. The key \<open>`${r},${g},${b}`\<close> of an
      integer triple is represented by the triple itself.\<close>
  "countColor key [] = [(key, 1)]"
| "countColor key ((key', c) # rest) =
     (if key = key' then (key', c + 1) # rest else (key', c) # countColor key rest)"

definition findDistinctReplacement ::
  "pixel \<Rightarrow> pixel list \<Rightarrow> pixel list \<Rightarrow> real \<Rightarrow> pixel option" where
  "findDistinctReplacement originalColor existingColors pixels minDistance =
    (let visited = map (\<lambda>j. pixels ! (10 * j)) [0..<(min (length pixels) 1000 + 9) div 10];
         colorCounts = fold countColor visited [];
         sortedColors = take 100 (sort_key (\<lambda>entry. - int (snd entry)) colorCounts)
     in find (\<lambda>candidate. isDistinct candidate existingColors minDistance)
             (map fst sortedColors))"

definition ensureDistinctColors :: "pixel list \<Rightarrow> pixel list \<Rightarrow> real \<Rightarrow> pixel list" where
  "ensureDistinctColors centroids pixels minDistance =
     fold (\<lambda>centroid distinctColors.
             if isDistinct centroid distinctColors minDistance
             then distinctColors @ [centroid]
             else (case findDistinctReplacement centroid distinctColors pixels minDistance of
                     Some replacement \<Rightarrow> distinctColors @ [replacement]
                   | None \<Rightarrow>
                       (case centroid of (cr, cg, cb) \<Rightarrow>
                          distinctColors @ [(min 255 (cr + 30), min 255 (cg + 30), min 255 (cb + 30))])))
          centroids []"

subsection \<open>Sampling\<close>

text \<open>
  \<open>ImageData\<close>: \<open>data\<close> is a \<open>Uint8ClampedArray\<close>, a sequence of bytes. An \<open>ImageData\<close>
  of the platform always has \<open>data.length = 4 * width * height\<close>.
\<close>

record ImageData =
  width :: nat
  height :: nat
  data :: "8 word list"

definition wellFormed :: "ImageData \<Rightarrow> bool" where
  "wellFormed imageData \<longleftrightarrow> length (data imageData) = 4 * width imageData * height imageData"

text \<open>
  Reading an array past its end gives \<open>undefined\<close> in JavaScript, and the arithmetic of
  the clusterer on \<open>undefined\<close> is not a number of this model. The guard of the sampler
  only checks the first of the three indices it reads; a read of \<open>data[i + 1]\<close> or
  \<open>data[i + 2]\<close> past the end is therefore a result of its own, \<open>UndefinedChannel\<close>.
  \<open>TypeError\<close> is the exception of \<open>clusters[closestCentroid].push(pixel)\<close> when
  \<open>clusters\<close> is empty.
\<close>

datatype error = UndefinedChannel | TypeError

definition stride4 :: "nat \<Rightarrow> nat list" where
  \<comment> \<open>The values of a counter in \<open>for (let x = 0; x < n; x += 4)\<close>.\<close>
  "stride4 n = map (\<lambda>j. 4 * j) [0..<(n + 3) div 4]"

definition sampleCoords :: "nat \<Rightarrow> nat \<Rightarrow> (nat \<times> nat) list" where
  \<comment> \<open>The pairs \<open>(x, y)\<close> in the order the nested loops visit them.\<close>
  "sampleCoords w h = concat (map (\<lambda>y. map (\<lambda>x. (x, y)) (stride4 w)) (stride4 h))"

type_synonym pixelPosition = "nat \<times> nat \<times> nat"
  \<comment> \<open>\<open>{x, y, index}\<close>\<close>

fun sampleLoop ::
  "8 word list \<Rightarrow> nat \<Rightarrow> (nat \<times> nat) list \<Rightarrow> pixel list \<times> pixelPosition list
     \<Rightarrow> error + pixel list \<times> pixelPosition list" where
  "sampleLoop d w [] acc = Inr acc"
| "sampleLoop d w ((x, y) # rest) (pixels, pixelPositions) =
    (let i = (y * w + x) * 4
     in if i < length d then
          (if i + 2 < length d then
             sampleLoop d w rest
               (pixels @ [(uint (d ! i), uint (d ! (i + 1)), uint (d ! (i + 2)))],
                pixelPositions @ [(x, y, length pixels)])
           else Inl UndefinedChannel)
        else sampleLoop d w rest (pixels, pixelPositions))"

definition samplePixels :: "ImageData \<Rightarrow> error + pixel list \<times> pixelPosition list" where
  "samplePixels imageData =
     sampleLoop (data imageData) (width imageData)
       (sampleCoords (width imageData) (height imageData)) ([], [])"

definition sampleOffsets :: "ImageData \<Rightarrow> nat list" where
  \<comment> \<open>The offsets \<open>i = (y * width + x) * 4\<close> that pass the guard \<open>i < data.length\<close>,
      in the order of the loop.\<close>
  "sampleOffsets imageData =
     filter (\<lambda>i. i < length (data imageData))
       (map (\<lambda>(x, y). (y * width imageData + x) * 4)
          (sampleCoords (width imageData) (height imageData)))"

definition sampleReads :: "ImageData \<Rightarrow> nat list" where
  \<comment> \<open>The indices of \<open>data\<close> that the sampling loop reads: \<open>i\<close>, \<open>i + 1\<close>, \<open>i + 2\<close>
      for every such offset.\<close>
  "sampleReads imageData = concat (map (\<lambda>i. [i, i + 1, i + 2]) (sampleOffsets imageData))"

subsection \<open>Representative positions and the result\<close>

definition colorPosition ::
  "ImageData \<Rightarrow> nat \<Rightarrow> pixel list \<Rightarrow> pixelPosition list \<Rightarrow> nat list \<Rightarrow> nat \<Rightarrow> pixel
     \<Rightarrow> real \<times> real" where
  "colorPosition imageData k pixels pixelPositions assignments clusterIdx centroid =
    (let clusterPositions =
           filter (\<lambda>pos. case pos of (x, y, index) \<Rightarrow> assignments ! index = clusterIdx)
                  pixelPositions
     in if length clusterPositions = 0 then
          (let x = (real (width imageData) / (real k + 1)) * (real clusterIdx + 1);
               y = real (height imageData) / 2
           in (of_int (round x), of_int (round y)))
        else
          (case fst (fold (\<lambda>pos (bestPosition, minDistance).
                             (case pos of (x, y, index) \<Rightarrow>
                                (let dist = Num (colorDistance (pixels ! index) centroid)
                                 in if ext_less dist minDistance then (pos, dist)
                                    else (bestPosition, minDistance))))
                          clusterPositions (hd clusterPositions, Infinity)) of
             (x, y, index) \<Rightarrow> (real x, real y)))"

definition neutralGray :: "ImageData \<Rightarrow> Color" where
  "neutralGray imageData =
     \<lparr>c_r = 128, c_g = 128, c_b = 128, c_h = 0, c_s = 0, c_l = 50,
      c_hex = ''#808080'',
      c_position = Some (real (width imageData) / 2, real (height imageData) / 2)\<rparr>"

definition centroidColor :: "ImageData \<Rightarrow> (real \<times> real) list \<Rightarrow> nat \<Rightarrow> pixel \<Rightarrow> Color" where
  \<comment> \<open>The object built for \<open>(rgb, idx)\<close> in \<open>centroids.slice(0, k).map(...)\<close>.\<close>
  "centroidColor imageData colorPositions idx rgb =
    (case rgb of (r0, g0, b0) \<Rightarrow>
       (let hsl = rgbToHsl (of_int r0) (of_int g0) (of_int b0)
        in \<lparr>c_r = r0, c_g = g0, c_b = b0,
            c_h = of_int (hsl_h hsl), c_s = of_int (hsl_s hsl), c_l = of_int (hsl_l hsl),
            c_hex = rgbToHex r0 g0 b0,
            c_position =
              (if idx < length colorPositions then Some (colorPositions ! idx)
               else Some (real (width imageData) / 2, real (height imageData) / 2))\<rparr>))"

definition extractColorsKMeans :: "random \<Rightarrow> ImageData \<Rightarrow> nat \<Rightarrow> error + Color list" where
  "extractColorsKMeans rnd imageData k =
    (case samplePixels imageData of
       Inl e \<Rightarrow> Inl e
     | Inr (pixels, pixelPositions) \<Rightarrow>
         if length pixels = 0 then Inr (replicate k (neutralGray imageData))
         else if k = 0 then Inl TypeError
         else
           (case initializeDistinctCentroids rnd pixels k 0 of
              (centroids0, n0) \<Rightarrow>
                (case ((kmeansIteration rnd pixels k) ^^ 15) (centroids0, [], n0) of
                   (centroids1, assignments, n1) \<Rightarrow>
                     (let centroids = ensureDistinctColors centroids1 pixels 60;
                          colorPositions =
                            map (\<lambda>(clusterIdx, centroid).
                                   colorPosition imageData k pixels pixelPositions assignments
                                     clusterIdx centroid)
                                (enumerate 0 centroids);
                          result =
                            map (\<lambda>(idx, rgb). centroidColor imageData colorPositions idx rgb)
                                (enumerate 0 (take k centroids))
                      in Inr (result @ replicate (k - length result) (neutralGray imageData))))))"

section \<open>Predicates and compositions the properties are stated with\<close>

definition validHSL :: "Color \<Rightarrow> bool" where
  \<comment> \<open>A base colour with valid fields: \<open>h\<close> in \<open>[0, 360]\<close>, \<open>s\<close> and \<open>l\<close> in \<open>[0, 100]\<close>.\<close>
  "validHSL c \<longleftrightarrow>
     0 \<le> c_h c \<and> c_h c \<le> 360 \<and> 0 \<le> c_s c \<and> c_s c \<le> 100 \<and> 0 \<le> c_l c \<and> c_l c \<le> 100"

definition consistent :: "Color \<Rightarrow> bool" where
  \<comment> \<open>\<open>hex\<close> and \<open>h\<close>, \<open>s\<close>, \<open>l\<close> are the ones derived from the colour's own \<open>r\<close>, \<open>g\<close>, \<open>b\<close>.\<close>
  "consistent c \<longleftrightarrow>
     c_hex c = rgbToHex (c_r c) (c_g c) (c_b c) \<and>
     c_h c = of_int (hsl_h (rgbToHsl (of_int (c_r c)) (of_int (c_g c)) (of_int (c_b c)))) \<and>
     c_s c = of_int (hsl_s (rgbToHsl (of_int (c_r c)) (of_int (c_g c)) (of_int (c_b c)))) \<and>
     c_l c = of_int (hsl_l (rgbToHsl (of_int (c_r c)) (of_int (c_g c)) (of_int (c_b c))))"

definition hslRoundTrip :: "int \<Rightarrow> int \<Rightarrow> int \<Rightarrow> RGB" where
  \<comment> \<open>\<open>hslToRgb\<close> applied to the fields of \<open>rgbToHsl(r, g, b)\<close>.\<close>
  "hslRoundTrip r0 g0 b0 =
    (let hsl = rgbToHsl (of_int r0) (of_int g0) (of_int b0)
     in hslToRgb (of_int (hsl_h hsl)) (of_int (hsl_s hsl)) (of_int (hsl_l hsl)))"

text \<open>
  The conversions in exact arithmetic, against which the rounded ones are measured:
  \<open>l\<close>, \<open>s\<close> and \<open>h\<close> of \<open>rgbToHsl\<close> before they are scaled and rounded, as functions of
  the channels divided by 255; the piecewise linear shape of \<open>hue2rgb\<close>, which is
  \<open>hue2rgb(0, 1, t)\<close>; and a channel of \<open>hslToRgb\<close> before it is scaled and rounded.
  \<open>eps\<close> bounds the rounding error of \<open>fl\<close> on numbers up to \<open>1024\<close>.
\<close>

definition eps :: real where
  "eps = 1 / 2 ^ 43"

definition unitChannel :: "int \<Rightarrow> real" where
  \<comment> \<open>\<open>r /= 255\<close>\<close>
  "unitChannel n = fl (of_int n / 255)"

definition lightnessOf :: "real \<Rightarrow> real \<Rightarrow> real \<Rightarrow> real" where
  "lightnessOf r g b = (max r (max g b) + min r (min g b)) / 2"

definition saturationOf :: "real \<Rightarrow> real \<Rightarrow> real \<Rightarrow> real" where
  "saturationOf r g b =
    (let mx = max r (max g b); mn = min r (min g b); l = (mx + mn) / 2
     in if mx \<noteq> mn then (if l > 1 / 2 then (mx - mn) / (2 - mx - mn) else (mx - mn) / (mx + mn))
        else 0)"

definition hueOf :: "real \<Rightarrow> real \<Rightarrow> real \<Rightarrow> real" where
  "hueOf r g b =
    (let mx = max r (max g b); mn = min r (min g b); d = mx - mn
     in if mx \<noteq> mn then
          (if mx = r then ((g - b) / d + (if g < b then 6 else 0)) / 6
           else if mx = g then ((b - r) / d + 2) / 6
           else if mx = b then ((r - g) / d + 4) / 6
           else 0)
        else 0)"

definition rawShape :: "real \<Rightarrow> real" where
  \<comment> \<open>The four branches of \<open>hue2rgb(0, 1, t)\<close>.\<close>
  "rawShape t = (if t < 1 / 6 then 6 * t else if t < 1 / 2 then 1
                 else if t < 2 / 3 then (2 / 3 - t) * 6 else 0)"

definition hueShape :: "real \<Rightarrow> real" where
  \<comment> \<open>\<open>hue2rgb(0, 1, t)\<close>, with the two adjustments of \<open>t\<close>.\<close>
  "hueShape t0 =
    (let t1 = (if t0 < 0 then t0 + 1 else t0);
         t = (if t1 > 1 then t1 - 1 else t1)
     in rawShape t)"

definition channelOf :: "real \<Rightarrow> real \<Rightarrow> real \<Rightarrow> real" where
  \<comment> \<open>A channel of hslToRgb before it is scaled and rounded, from the fractions
      t (the shifted hue), s and l.\<close>
  "channelOf t s l = l + s * min l (1 - l) * (2 * hueShape t - 1)"

section \<open>Rounding to the nearest double\<close>

text \<open>
  The rounding error of \<open>fl\<close> is at most half a unit in the last place: at most
  \<open>2^(n-53)\<close> on numbers up to \<open>2^n\<close>, and at most \<open>(|x| + 1) / 2^53\<close> in general.
  The rule \<open>fl_evalI\<close> evaluates \<open>fl\<close> on a number whose binade is given: for
  \<open>2^52 \<le> |x| * 2^k < 2^53\<close> the doubles near \<open>x\<close> are the multiples of \<open>2^(-k)\<close>.
  Integers below \<open>2^53\<close> are doubles.
\<close>

lemma rne_err: "\<bar>of_int (rne y) - y\<bar> \<le> 1 / 2"
proof -
  define f where "f = \<lfloor>y\<rfloor>"
  have "of_int f \<le> y" "y < of_int f + 1" unfolding f_def by linarith+
  then show ?thesis unfolding rne_def Let_def f_def[symmetric] by (auto simp: abs_if)
qed

lemma rne_of_int [simp]: "rne (of_int n) = n"
  by (simp add: rne_def)

lemma rne_nonneg: "0 \<le> y \<Longrightarrow> 0 \<le> rne y"
  by (auto simp: rne_def Let_def)

lemma fl_zero [simp]: "fl 0 = 0"
  by (simp add: fl_def)

lemma fl_nonneg: "0 \<le> x \<Longrightarrow> 0 \<le> fl x"
  by (auto simp: fl_def intro!: mult_nonneg_nonneg rne_nonneg)

lemma fl_err_ulp: "\<bar>fl x - x\<bar> \<le> 2 powr of_int (ulpExp x) / 2"
proof (cases "x = 0")
  case True
  then show ?thesis by simp
next
  case False
  define s where "s = 2 powr real_of_int (ulpExp x)"
  have s: "0 < s" by (simp add: s_def)
  have "fl x - x = (of_int (rne (x / s)) - x / s) * s"
    using False s by (simp add: fl_def s_def[symmetric] algebra_simps)
  then have "\<bar>fl x - x\<bar> = \<bar>of_int (rne (x / s)) - x / s\<bar> * s"
    using s by (simp add: abs_mult)
  also have "\<dots> \<le> (1 / 2) * s"
    using s rne_err[of "x / s"] by (intro mult_right_mono) auto
  finally show ?thesis by (simp add: s_def)
qed

lemma ulpExp_le:
  assumes "x \<noteq> 0" "\<bar>x\<bar> \<le> 2 ^ n"
  shows "ulpExp x \<le> int n - 52"
proof -
  have "log 2 \<bar>x\<bar> \<le> log 2 (2 ^ n)" using assms by (subst log_le_cancel_iff) auto
  also have "\<dots> = real n" by simp
  finally have "\<lfloor>log 2 \<bar>x\<bar>\<rfloor> \<le> int n" by (simp add: floor_le_iff)
  then show ?thesis by (simp add: ulpExp_def)
qed

lemma fl_err_pow:
  assumes "\<bar>x\<bar> \<le> 2 ^ n"
  shows "\<bar>fl x - x\<bar> \<le> 2 ^ n / 2 ^ 53"
proof (cases "x = 0")
  case True
  then show ?thesis by simp
next
  case False
  have "2 powr real_of_int (ulpExp x) \<le> 2 powr real_of_int (int n - 52)"
    using ulpExp_le[OF False assms] by simp
  also have "\<dots> = 2 ^ n / 2 ^ 52"
    by (simp add: powr_diff powr_realpow)
  finally have "2 powr real_of_int (ulpExp x) / 2 \<le> 2 ^ n / 2 ^ 53" by simp
  with fl_err_ulp[of x] show ?thesis by linarith
qed

lemma fl_evalI:
  fixes x :: real
  assumes k: "k \<le> 1074"
    and lo: "2 ^ 52 \<le> \<bar>x\<bar> * 2 ^ k" and hi: "\<bar>x\<bar> * 2 ^ k < 2 ^ 53"
    and m: "of_int (rne (x * 2 ^ k)) / 2 ^ k = v"
  shows "fl x = v"
proof -
  define c :: real where "c = 2 ^ k"
  have cpos: "0 < c" by (simp add: c_def)
  have x0: "x \<noteq> 0" using lo by auto
  have xpos: "0 < \<bar>x\<bar>" using x0 by simp
  have "2 powr real_of_int (52 - int k) \<le> \<bar>x\<bar>"
    using lo by (simp add: powr_diff powr_realpow field_simps)
  moreover have "\<bar>x\<bar> < 2 powr (real_of_int (52 - int k) + 1)"
    using hi by (simp add: powr_diff powr_add powr_realpow field_simps)
  ultimately have "\<lfloor>log 2 \<bar>x\<bar>\<rfloor> = 52 - int k"
    using floor_log_eq_powr_iff[of "\<bar>x\<bar>" 2 "52 - int k"] xpos by simp
  then have e: "ulpExp x = - int k" using k by (simp add: ulpExp_def)
  have p: "2 powr (- real k) = 1 / 2 ^ k"
    by (simp add: powr_minus powr_realpow inverse_eq_divide)
  show ?thesis using x0 m by (simp add: fl_def e p)
qed


lemma log2_less:
  fixes x :: real
  assumes "0 < x" "x < 2 ^ n"
  shows "log 2 x < real n"
proof -
  have "log 2 x < log 2 (2 ^ n)" using assms by (subst log_less_cancel_iff) auto
  then show ?thesis by simp
qed

lemma fl_of_int:
  assumes "\<bar>n\<bar> < 2 ^ 53"
  shows "fl (of_int n) = of_int n"
proof (cases "n = 0")
  case True
  then show ?thesis by simp
next
  case False
  define x where "x = real_of_int n"
  have x0: "x \<noteq> 0" using False by (simp add: x_def)
  have x1: "1 \<le> \<bar>x\<bar>" using False by (simp add: x_def)
  have "\<bar>x\<bar> < 2 ^ 53"
  proof -
    have "real_of_int \<bar>n\<bar> < real_of_int (2 ^ 53)" using assms by (simp only: of_int_less_iff)
    then show ?thesis by (simp add: x_def)
  qed
  then have "log 2 \<bar>x\<bar> < real 53" using x1 by (intro log2_less) auto
  then have up: "\<lfloor>log 2 \<bar>x\<bar>\<rfloor> \<le> 52" by (simp add: floor_le_iff)
  have "0 \<le> log 2 \<bar>x\<bar>" using x1 by simp
  then have lo: "0 \<le> \<lfloor>log 2 \<bar>x\<bar>\<rfloor>" by simp
  define j where "j = nat (52 - \<lfloor>log 2 \<bar>x\<bar>\<rfloor>)"
  have e: "ulpExp x = - int j" using up lo by (simp add: ulpExp_def j_def)
  have p: "2 powr (- real j) = 1 / 2 ^ j"
    by (simp add: powr_minus powr_realpow inverse_eq_divide)
  have "x / (1 / 2 ^ j) = of_int (n * 2 ^ j)" by (simp add: x_def)
  then have r: "rne (x / (1 / 2 ^ j)) = n * 2 ^ j" by (simp only: rne_of_int)
  have "fl x = of_int (n * 2 ^ j) * (1 / 2 ^ j)"
    using x0 by (simp only: fl_def e p r of_int_minus of_int_of_nat_eq if_False)
  then show ?thesis by (simp add: x_def)
qed

lemma fl_numeral [simp]:
  "(numeral k :: int) < 2 ^ 53 \<Longrightarrow> fl (numeral k) = numeral k"
  using fl_of_int[of "numeral k"] by simp

lemma fl_neg_numeral [simp]:
  "(numeral k :: int) < 2 ^ 53 \<Longrightarrow> fl (- numeral k) = - numeral k"
  using fl_of_int[of "- numeral k"] by simp

lemma fl_one [simp]: "fl 1 = 1"
  using fl_of_int[of 1] by simp

lemma fl_rel: "\<bar>fl x - x\<bar> \<le> \<bar>x\<bar> / 9007199254740992 + 1 / 9007199254740992"
proof (cases "\<bar>x\<bar> \<le> 1")
  case True
  then have "\<bar>x\<bar> \<le> 2 ^ 0" by simp
  from fl_err_pow[OF this] have "\<bar>fl x - x\<bar> \<le> 1 / 9007199254740992" by simp
  moreover have "0 \<le> \<bar>x\<bar> / 9007199254740992" by simp
  ultimately show ?thesis by linarith
next
  case False
  then have x1: "1 < \<bar>x\<bar>" by simp
  then have "0 < log 2 \<bar>x\<bar>" by simp
  then have lo: "0 \<le> \<lfloor>log 2 \<bar>x\<bar>\<rfloor>" by simp
  then have e: "ulpExp x = \<lfloor>log 2 \<bar>x\<bar>\<rfloor> - 52" by (simp add: ulpExp_def)
  have "2 powr real_of_int \<lfloor>log 2 \<bar>x\<bar>\<rfloor> \<le> 2 powr log 2 \<bar>x\<bar>"
    by (intro powr_mono) auto
  also have "\<dots> = \<bar>x\<bar>" using x1 by simp
  finally have p: "2 powr real_of_int \<lfloor>log 2 \<bar>x\<bar>\<rfloor> \<le> \<bar>x\<bar>" .
  have "2 powr real_of_int (ulpExp x) = 2 powr real_of_int \<lfloor>log 2 \<bar>x\<bar>\<rfloor> / 2 ^ 52"
    unfolding e by (simp add: powr_diff powr_realpow)
  also have "\<dots> \<le> \<bar>x\<bar> / 2 ^ 52" using p by (intro divide_right_mono) auto
  finally have "2 powr real_of_int (ulpExp x) / 2 \<le> \<bar>x\<bar> / 9007199254740992" by simp
  with fl_err_ulp[of x] show ?thesis by linarith
qed

lemma fl_lower:
  assumes "- K \<le> x" "0 \<le> K"
  shows "- K - (K + 1) / 9007199254740992 \<le> fl x"
proof (cases "0 \<le> x")
  case True
  have "0 \<le> (K + 1) / 9007199254740992" using assms by simp
  then show ?thesis using fl_nonneg[OF True] assms by linarith
next
  case False
  then have "\<bar>x\<bar> \<le> K" using assms by simp
  then have "\<bar>x\<bar> / 9007199254740992 \<le> K / 9007199254740992" by (intro divide_right_mono) auto
  then show ?thesis using fl_rel[of x] assms unfolding add_divide_distrib by linarith
qed

lemma fl_consts:
  "fl (1 / 3) = 6004799503160661 / 18014398509481984"
  "fl (1 / 6) = 6004799503160661 / 36028797018963968"
  "fl (2 / 3) = 6004799503160661 / 9007199254740992"
  "fl (1 / 2) = 1 / 2"
     apply (rule fl_evalI[where k = 54]; simp add: rne_def Let_def)
    apply (rule fl_evalI[where k = 55]; simp add: rne_def Let_def)
   apply (rule fl_evalI[where k = 53]; simp add: rne_def Let_def)
  apply (rule fl_evalI[where k = 53]; simp add: rne_def Let_def)
  done

section \<open>Evaluating the conversions\<close>

text \<open>
  A conversion is evaluated stage by stage: every stage is one assignment of the source, and
  the doubles it produces are given as fractions.
\<close>

lemma rgbToHsl_achromatic:
  assumes "fl (r0 / 255) = r" "fl (g0 / 255) = g" "fl (b0 / 255) = b"
    and "max r (max g b) = mx" "min r (min g b) = mx"
    and "fl (fl (mx + mx) / 2) = l"
    and "round (fl (l * 100)) = ll"
  shows "rgbToHsl r0 g0 b0 = \<lparr>hsl_h = 0, hsl_s = 0, hsl_l = ll\<rparr>"
  by (simp only: rgbToHsl_def Let_def assms not_False_eq_True not_True_eq_False if_True if_False
      prod.case simp_thms) simp

lemma rgbToHsl_chromatic:
  assumes "fl (r0 / 255) = r" "fl (g0 / 255) = g" "fl (b0 / 255) = b"
    and "max r (max g b) = mx" "min r (min g b) = mn" "mx \<noteq> mn"
    and "fl (fl (mx + mn) / 2) = l" "fl (mx - mn) = d"
    and "(if l > 1 / 2 then fl (d / fl (fl (2 - mx) - mn)) else fl (d / fl (mx + mn))) = s"
    and "(if mx = r then fl (fl (fl (fl (g - b) / d) + (if g < b then 6 else 0)) / 6)
          else if mx = g then fl (fl (fl (fl (b - r) / d) + 2) / 6)
          else if mx = b then fl (fl (fl (fl (r - g) / d) + 4) / 6)
          else 0) = h"
    and "round (fl (h * 360)) = hh" "round (fl (s * 100)) = ss" "round (fl (l * 100)) = ll"
  shows "rgbToHsl r0 g0 b0 = \<lparr>hsl_h = hh, hsl_s = ss, hsl_l = ll\<rparr>"
  by (simp only: rgbToHsl_def Let_def assms not_False_eq_True not_True_eq_False if_True if_False
      prod.case simp_thms)

lemma hue2rgb_eval:
  assumes "(if t0 < 0 then fl (t0 + 1) else t0) = t1"
    and "(if t1 > 1 then fl (t1 - 1) else t1) = t"
    and "(if t < fl (1 / 6) then fl (p + fl (fl (fl (q - p) * 6) * t))
          else if t < fl (1 / 2) then q
          else if t < fl (2 / 3) then fl (p + fl (fl (fl (q - p) * fl (fl (2 / 3) - t)) * 6))
          else p) = v"
  shows "hue2rgb p q t0 = v"
  by (simp only: hue2rgb_def Let_def assms)

lemma hslToRgb_chromatic:
  assumes "fl (h0 / 360) = h" "fl (s0 / 100) = s" "fl (l0 / 100) = l" "s \<noteq> 0"
    and "(if l < 1 / 2 then fl (l * fl (1 + s)) else fl (fl (l + s) - fl (l * s))) = q"
    and "fl (fl (2 * l) - q) = p"
    and "hue2rgb p q (fl (h + fl (1 / 3))) = r" "hue2rgb p q h = g"
    and "hue2rgb p q (fl (h - fl (1 / 3))) = b"
    and "round (fl (r * 255)) = rr" "round (fl (g * 255)) = gg" "round (fl (b * 255)) = bb"
  shows "hslToRgb h0 s0 l0 = \<lparr>rgb_r = rr, rgb_g = gg, rgb_b = bb\<rparr>"
  by (simp only: hslToRgb_def Let_def assms not_False_eq_True not_True_eq_False if_True if_False
      prod.case simp_thms)

lemma rgbToHsl_gray: "rgbToHsl 128 128 128 = \<lparr>hsl_h = 0, hsl_s = 0, hsl_l = 50\<rparr>"
proof -
  have f1: "fl (128 / 255) = 282578800148737 / 562949953421312"
    by (rule fl_evalI[where k = 53]) (simp_all add: rne_def Let_def)
  have f2: "fl (282578800148737 / 281474976710656) = 282578800148737 / 281474976710656"
    by (rule fl_evalI[where k = 52]) (simp_all add: rne_def Let_def)
  have f3: "fl (282578800148737 / 562949953421312) = 282578800148737 / 562949953421312"
    by (rule fl_evalI[where k = 53]) (simp_all add: rne_def Let_def)
  have f4: "fl (7064470003718425 / 140737488355328) = 7064470003718425 / 140737488355328"
    by (rule fl_evalI[where k = 47]) (simp_all add: rne_def Let_def)
  show ?thesis
    by (rule rgbToHsl_achromatic[where r = "282578800148737 / 562949953421312"
          and g = "282578800148737 / 562949953421312"
          and b = "282578800148737 / 562949953421312"
          and mx = "282578800148737 / 562949953421312"
          and l = "282578800148737 / 562949953421312"])
       (simp_all add: round_def fl_consts f1 f2 f3 f4)
qed

lemma rgbToHsl_10_20_30: "rgbToHsl 10 20 30 = \<lparr>hsl_h = 210, hsl_s = 50, hsl_l = 8\<rparr>"
proof -
  have f1: "fl (2 / 51) = 1412894000743685 / 36028797018963968"
    by (rule fl_evalI[where k = 57]) (simp_all add: rne_def Let_def)
  have f2: "fl (4 / 51) = 1412894000743685 / 18014398509481984"
    by (rule fl_evalI[where k = 56]) (simp_all add: rne_def Let_def)
  have f3: "fl (2 / 17) = 4238682002231055 / 36028797018963968"
    by (rule fl_evalI[where k = 56]) (simp_all add: rne_def Let_def)
  have f4: "fl (1412894000743685 / 9007199254740992) = 1412894000743685 / 9007199254740992"
    by (rule fl_evalI[where k = 55]) (simp_all add: rne_def Let_def)
  have f5: "fl (1412894000743685 / 18014398509481984) = 1412894000743685 / 18014398509481984"
    by (rule fl_evalI[where k = 56]) (simp_all add: rne_def Let_def)
  have f6: "fl (- (1412894000743685 / 36028797018963968)) = - (1412894000743685 / 36028797018963968)"
    by (rule fl_evalI[where k = 57]) (simp_all add: rne_def Let_def)
  have f7: "fl (- (1 / 2)) = - (1 / 2)"
    by (rule fl_evalI[where k = 53]) (simp_all add: rne_def Let_def)
  have f8: "fl (7 / 2) = 7 / 2"
    by (rule fl_evalI[where k = 51]) (simp_all add: rne_def Let_def)
  have f9: "fl (7 / 12) = 5254199565265579 / 9007199254740992"
    by (rule fl_evalI[where k = 53]) (simp_all add: rne_def Let_def)
  have f10: "fl (236438980436951055 / 1125899906842624) = 210"
    by (rule fl_evalI[where k = 45]) (simp_all add: rne_def Let_def)
  have f11: "fl (35322350018592125 / 4503599627370496) = 8830587504648031 / 1125899906842624"
    by (rule fl_evalI[where k = 50]) (simp_all add: rne_def Let_def)
  show ?thesis
    by (rule rgbToHsl_chromatic[where r = "1412894000743685 / 36028797018963968"
          and g = "1412894000743685 / 18014398509481984"
          and b = "4238682002231055 / 36028797018963968"
          and mx = "4238682002231055 / 36028797018963968"
          and mn = "1412894000743685 / 36028797018963968"
          and l = "1412894000743685 / 18014398509481984"
          and d = "1412894000743685 / 18014398509481984"
          and s = "1 / 2"
          and h = "5254199565265579 / 9007199254740992"])
       (simp_all add: round_def fl_consts f1 f2 f3 f4 f5 f6 f7 f8 f9 f10 f11)
qed

lemma rgbToHsl_40_50_60: "rgbToHsl 40 50 60 = \<lparr>hsl_h = 210, hsl_s = 20, hsl_l = 20\<rparr>"
proof -
  have f1: "fl (8 / 51) = 1412894000743685 / 9007199254740992"
    by (rule fl_evalI[where k = 55]) (simp_all add: rne_def Let_def)
  have f2: "fl (10 / 51) = 7064470003718425 / 36028797018963968"
    by (rule fl_evalI[where k = 55]) (simp_all add: rne_def Let_def)
  have f3: "fl (4 / 17) = 4238682002231055 / 18014398509481984"
    by (rule fl_evalI[where k = 55]) (simp_all add: rne_def Let_def)
  have f4: "fl (7064470003718425 / 18014398509481984) = 7064470003718425 / 18014398509481984"
    by (rule fl_evalI[where k = 54]) (simp_all add: rne_def Let_def)
  have f5: "fl (7064470003718425 / 36028797018963968) = 7064470003718425 / 36028797018963968"
    by (rule fl_evalI[where k = 55]) (simp_all add: rne_def Let_def)
  have f6: "fl (1412894000743685 / 18014398509481984) = 1412894000743685 / 18014398509481984"
    by (rule fl_evalI[where k = 56]) (simp_all add: rne_def Let_def)
  have f7: "fl (1 / 5) = 3602879701896397 / 18014398509481984"
    by (rule fl_evalI[where k = 55]) (simp_all add: rne_def Let_def)
  have f8: "fl (- (1412894000743685 / 36028797018963968)) = - (1412894000743685 / 36028797018963968)"
    by (rule fl_evalI[where k = 57]) (simp_all add: rne_def Let_def)
  have f9: "fl (- (1 / 2)) = - (1 / 2)"
    by (rule fl_evalI[where k = 53]) (simp_all add: rne_def Let_def)
  have f10: "fl (7 / 2) = 7 / 2"
    by (rule fl_evalI[where k = 51]) (simp_all add: rne_def Let_def)
  have f11: "fl (7 / 12) = 5254199565265579 / 9007199254740992"
    by (rule fl_evalI[where k = 53]) (simp_all add: rne_def Let_def)
  have f12: "fl (236438980436951055 / 1125899906842624) = 210"
    by (rule fl_evalI[where k = 45]) (simp_all add: rne_def Let_def)
  have f13: "fl (90071992547409925 / 4503599627370496) = 20"
    by (rule fl_evalI[where k = 48]) (simp_all add: rne_def Let_def)
  have f14: "fl (176611750092960625 / 9007199254740992) = 1379779297601255 / 70368744177664"
    by (rule fl_evalI[where k = 48]) (simp_all add: rne_def Let_def)
  show ?thesis
    by (rule rgbToHsl_chromatic[where r = "1412894000743685 / 9007199254740992"
          and g = "7064470003718425 / 36028797018963968"
          and b = "4238682002231055 / 18014398509481984"
          and mx = "4238682002231055 / 18014398509481984"
          and mn = "1412894000743685 / 9007199254740992"
          and l = "7064470003718425 / 36028797018963968"
          and d = "1412894000743685 / 18014398509481984"
          and s = "3602879701896397 / 18014398509481984"
          and h = "5254199565265579 / 9007199254740992"])
       (simp_all add: round_def fl_consts f1 f2 f3 f4 f5 f6 f7 f8 f9 f10 f11 f12 f13 f14)
qed

lemma hslToRgb_30_48_79: "hslToRgb 30 48 79 = \<lparr>rgb_r = 227, rgb_g = 201, rgb_b = 176\<rparr>"
proof -
  have f1: "fl (1 / 12) = 6004799503160661 / 72057594037927936"
    by (rule fl_evalI[where k = 56]) (simp_all add: rne_def Let_def)
  have f2: "fl (12 / 25) = 1080863910568919 / 2251799813685248"
    by (rule fl_evalI[where k = 54]) (simp_all add: rne_def Let_def)
  have f3: "fl (79 / 100) = 889460926405673 / 1125899906842624"
    by (rule fl_evalI[where k = 53]) (simp_all add: rne_def Let_def)
  have f4: "fl (2859785763380265 / 2251799813685248) = 2859785763380265 / 2251799813685248"
    by (rule fl_evalI[where k = 52]) (simp_all add: rne_def Let_def)
  have f5: "fl (961386215213089185751219077487 / 2535301200456458802993406410752) = 426941244674723 / 1125899906842624"
    by (rule fl_evalI[where k = 54]) (simp_all add: rne_def Let_def)
  have f6: "fl (2005903274030819 / 2251799813685248) = 2005903274030819 / 2251799813685248"
    by (rule fl_evalI[where k = 53]) (simp_all add: rne_def Let_def)
  have f7: "fl (889460926405673 / 562949953421312) = 889460926405673 / 562949953421312"
    by (rule fl_evalI[where k = 52]) (simp_all add: rne_def Let_def)
  have f8: "fl (1551940431591873 / 2251799813685248) = 1551940431591873 / 2251799813685248"
    by (rule fl_evalI[where k = 53]) (simp_all add: rne_def Let_def)
  have f9: "fl (30023997515803305 / 72057594037927936) = 3752999689475413 / 9007199254740992"
    by (rule fl_evalI[where k = 54]) (simp_all add: rne_def Let_def)
  have f10: "fl (226981421219473 / 1125899906842624) = 226981421219473 / 1125899906842624"
    by (rule fl_evalI[where k = 55]) (simp_all add: rne_def Let_def)
  have f11: "fl (680944263658419 / 562949953421312) = 680944263658419 / 562949953421312"
    by (rule fl_evalI[where k = 52]) (simp_all add: rne_def Let_def)
  have f12: "fl (4088933776096176559309382254959 / 40564819207303340847894502572032) = 226981421219473 / 2251799813685248"
    by (rule fl_evalI[where k = 56]) (simp_all add: rne_def Let_def)
  have f13: "fl (889460926405673 / 1125899906842624) = 889460926405673 / 1125899906842624"
    by (rule fl_evalI[where k = 53]) (simp_all add: rne_def Let_def)
  have f14: "fl (- (18014398509481983 / 72057594037927936)) = - (1 / 4)"
    by (rule fl_evalI[where k = 55]) (simp_all add: rne_def Let_def)
  have f15: "fl (3 / 4) = 3 / 4"
    by (rule fl_evalI[where k = 53]) (simp_all add: rne_def Let_def)
  have f16: "fl (511505334877858845 / 2251799813685248) = 499516928591659 / 2199023255552"
    by (rule fl_evalI[where k = 45]) (simp_all add: rne_def Let_def)
  have f17: "fl (226812536233446615 / 1125899906842624) = 7087891757295207 / 35184372088832"
    by (rule fl_evalI[where k = 45]) (simp_all add: rne_def Let_def)
  have f18: "fl (395744810055927615 / 2251799813685248) = 6183512657123869 / 35184372088832"
    by (rule fl_evalI[where k = 45]) (simp_all add: rne_def Let_def)
  have cr: "hue2rgb (1551940431591873 / 2251799813685248) (2005903274030819 / 2251799813685248) (3752999689475413 / 9007199254740992) = 2005903274030819 / 2251799813685248"
    by (rule hue2rgb_eval[where ?t1.0 = "3752999689475413 / 9007199254740992" and t = "3752999689475413 / 9007199254740992"])
       (simp_all add: fl_consts f1 f2 f3 f4 f5 f6 f7 f8 f9 f10 f11 f12 f13 f14 f15 f16 f17 f18)
  have cg: "hue2rgb (1551940431591873 / 2251799813685248) (2005903274030819 / 2251799813685248) (6004799503160661 / 72057594037927936) = 889460926405673 / 1125899906842624"
    by (rule hue2rgb_eval[where ?t1.0 = "6004799503160661 / 72057594037927936" and t = "6004799503160661 / 72057594037927936"])
       (simp_all add: fl_consts f1 f2 f3 f4 f5 f6 f7 f8 f9 f10 f11 f12 f13 f14 f15 f16 f17 f18)
  have cb: "hue2rgb (1551940431591873 / 2251799813685248) (2005903274030819 / 2251799813685248) (- (1 / 4)) = 1551940431591873 / 2251799813685248"
    by (rule hue2rgb_eval[where ?t1.0 = "3 / 4" and t = "3 / 4"])
       (simp_all add: fl_consts f1 f2 f3 f4 f5 f6 f7 f8 f9 f10 f11 f12 f13 f14 f15 f16 f17 f18)
  show ?thesis
    by (rule hslToRgb_chromatic[where h = "6004799503160661 / 72057594037927936"
          and s = "1080863910568919 / 2251799813685248"
          and l = "889460926405673 / 1125899906842624"
          and q = "2005903274030819 / 2251799813685248"
          and p = "1551940431591873 / 2251799813685248"
          and r = "2005903274030819 / 2251799813685248"
          and g = "889460926405673 / 1125899906842624"
          and b = "1551940431591873 / 2251799813685248"])
       (simp_all add: round_def fl_consts cr cg cb f1 f2 f3 f4 f5 f6 f7 f8 f9 f10 f11 f12 f13 f14 f15 f16 f17 f18)
qed

lemma rgbToHsl_227_201_176: "rgbToHsl 227 201 176 = \<lparr>hsl_h = 29, hsl_s = 48, hsl_l = 79\<rparr>"
proof -
  have f1: "fl (227 / 255) = 2004543363555103 / 2251799813685248"
    by (rule fl_evalI[where k = 53]) (simp_all add: rne_def Let_def)
  have f2: "fl (67 / 85) = 7099792353737017 / 9007199254740992"
    by (rule fl_evalI[where k = 53]) (simp_all add: rne_def Let_def)
  have f3: "fl (176 / 255) = 3108366801636107 / 4503599627370496"
    by (rule fl_evalI[where k = 53]) (simp_all add: rne_def Let_def)
  have f4: "fl (7117453528746313 / 4503599627370496) = 7117453528746313 / 4503599627370496"
    by (rule fl_evalI[where k = 52]) (simp_all add: rne_def Let_def)
  have f5: "fl (7117453528746313 / 9007199254740992) = 7117453528746313 / 9007199254740992"
    by (rule fl_evalI[where k = 53]) (simp_all add: rne_def Let_def)
  have f6: "fl (900719925474099 / 4503599627370496) = 900719925474099 / 4503599627370496"
    by (rule fl_evalI[where k = 55]) (simp_all add: rne_def Let_def)
  have f7: "fl (2499056263815393 / 2251799813685248) = 2499056263815393 / 2251799813685248"
    by (rule fl_evalI[where k = 52]) (simp_all add: rne_def Let_def)
  have f8: "fl (1889745725994679 / 4503599627370496) = 1889745725994679 / 4503599627370496"
    by (rule fl_evalI[where k = 54]) (simp_all add: rne_def Let_def)
  have f9: "fl (900719925474099 / 1889745725994679) = 4293151046652247 / 9007199254740992"
    by (rule fl_evalI[where k = 54]) (simp_all add: rne_def Let_def)
  have f10: "fl (883058750464803 / 9007199254740992) = 883058750464803 / 9007199254740992"
    by (rule fl_evalI[where k = 56]) (simp_all add: rne_def Let_def)
  have f11: "fl (294352916821601 / 600479950316066) = 275955859520251 / 562949953421312"
    by (rule fl_evalI[where k = 54]) (simp_all add: rne_def Let_def)
  have f12: "fl (275955859520251 / 562949953421312) = 275955859520251 / 562949953421312"
    by (rule fl_evalI[where k = 54]) (simp_all add: rne_def Let_def)
  have f13: "fl (275955859520251 / 3377699720527872) = 5887058336432021 / 72057594037927936"
    by (rule fl_evalI[where k = 56]) (simp_all add: rne_def Let_def)
  have f14: "fl (264917625139440945 / 9007199254740992) = 4139337892803765 / 140737488355328"
    by (rule fl_evalI[where k = 48]) (simp_all add: rne_def Let_def)
  have f15: "fl (107328776166306175 / 2251799813685248) = 838506063799267 / 17592186044416"
    by (rule fl_evalI[where k = 47]) (simp_all add: rne_def Let_def)
  have f16: "fl (177936338218657825 / 2251799813685248) = 5560510569333057 / 70368744177664"
    by (rule fl_evalI[where k = 46]) (simp_all add: rne_def Let_def)
  show ?thesis
    by (rule rgbToHsl_chromatic[where r = "2004543363555103 / 2251799813685248"
          and g = "7099792353737017 / 9007199254740992"
          and b = "3108366801636107 / 4503599627370496"
          and mx = "2004543363555103 / 2251799813685248"
          and mn = "3108366801636107 / 4503599627370496"
          and l = "7117453528746313 / 9007199254740992"
          and d = "900719925474099 / 4503599627370496"
          and s = "4293151046652247 / 9007199254740992"
          and h = "5887058336432021 / 72057594037927936"])
       (simp_all add: round_def fl_consts f1 f2 f3 f4 f5 f6 f7 f8 f9 f10 f11 f12 f13 f14 f15 f16)
qed

lemma hslToRgb_336_71_14: "hslToRgb 336 71 14 = \<lparr>rgb_r = 61, rgb_g = 10, rgb_b = 31\<rparr>"
proof -
  have f1: "fl (14 / 15) = 4203359652212463 / 4503599627370496"
    by (rule fl_evalI[where k = 53]) (simp_all add: rne_def Let_def)
  have f2: "fl (71 / 100) = 799388933858263 / 1125899906842624"
    by (rule fl_evalI[where k = 53]) (simp_all add: rne_def Let_def)
  have f3: "fl (7 / 50) = 1261007895663739 / 9007199254740992"
    by (rule fl_evalI[where k = 55]) (simp_all add: rne_def Let_def)
  have f4: "fl (1925288840700887 / 1125899906842624) = 1925288840700887 / 1125899906842624"
    by (rule fl_evalI[where k = 52]) (simp_all add: rne_def Let_def)
  have f5: "fl (2427804429557105130340831036493 / 10141204801825835211973625643008) = 8625294006339975 / 36028797018963968"
    by (rule fl_evalI[where k = 55]) (simp_all add: rne_def Let_def)
  have f6: "fl (1261007895663739 / 4503599627370496) = 1261007895663739 / 4503599627370496"
    by (rule fl_evalI[where k = 54]) (simp_all add: rne_def Let_def)
  have f7: "fl (1462769158969937 / 36028797018963968) = 1462769158969937 / 36028797018963968"
    by (rule fl_evalI[where k = 57]) (simp_all add: rne_def Let_def)
  have f8: "fl (22818238112010513 / 18014398509481984) = 1426139882000657 / 1125899906842624"
    by (rule fl_evalI[where k = 52]) (simp_all add: rne_def Let_def)
  have f9: "fl (300239975158033 / 1125899906842624) = 300239975158033 / 1125899906842624"
    by (rule fl_evalI[where k = 54]) (simp_all add: rne_def Let_def)
  have f10: "fl (10808639105689191 / 18014398509481984) = 1351079888211149 / 2251799813685248"
    by (rule fl_evalI[where k = 53]) (simp_all add: rne_def Let_def)
  have f11: "fl (3581262423685019 / 18014398509481984) = 3581262423685019 / 18014398509481984"
    by (rule fl_evalI[where k = 55]) (simp_all add: rne_def Let_def)
  have f12: "fl (600479950316065 / 9007199254740992) = 600479950316065 / 9007199254740992"
    by (rule fl_evalI[where k = 56]) (simp_all add: rne_def Let_def)
  have f13: "fl (2150476282243170732811055530235 / 162259276829213363391578010288128) = 7640026503861359 / 576460752303423488"
    by (rule fl_evalI[where k = 59]) (simp_all add: rne_def Let_def)
  have f14: "fl (22920079511584077 / 288230376151711744) = 5730019877896019 / 72057594037927936"
    by (rule fl_evalI[where k = 56]) (simp_all add: rne_def Let_def)
  have f15: "fl (8655558195835893 / 72057594037927936) = 8655558195835893 / 72057594037927936"
    by (rule fl_evalI[where k = 56]) (simp_all add: rne_def Let_def)
  have f16: "fl (2199449971616693625 / 36028797018963968) = 8591601451627709 / 140737488355328"
    by (rule fl_evalI[where k = 47]) (simp_all add: rne_def Let_def)
  have f17: "fl (373006135537333935 / 36028797018963968) = 5828220867770843 / 562949953421312"
    by (rule fl_evalI[where k = 49]) (simp_all add: rne_def Let_def)
  have f18: "fl (2207167339938152715 / 72057594037927936) = 8621747421633409 / 281474976710656"
    by (rule fl_evalI[where k = 48]) (simp_all add: rne_def Let_def)
  have cr: "hue2rgb (1462769158969937 / 36028797018963968) (8625294006339975 / 36028797018963968) (1426139882000657 / 1125899906842624) = 8625294006339975 / 36028797018963968"
    by (rule hue2rgb_eval[where ?t1.0 = "1426139882000657 / 1125899906842624" and t = "300239975158033 / 1125899906842624"])
       (simp_all add: fl_consts f1 f2 f3 f4 f5 f6 f7 f8 f9 f10 f11 f12 f13 f14 f15 f16 f17 f18)
  have cg: "hue2rgb (1462769158969937 / 36028797018963968) (8625294006339975 / 36028797018963968) (4203359652212463 / 4503599627370496) = 1462769158969937 / 36028797018963968"
    by (rule hue2rgb_eval[where ?t1.0 = "4203359652212463 / 4503599627370496" and t = "4203359652212463 / 4503599627370496"])
       (simp_all add: fl_consts f1 f2 f3 f4 f5 f6 f7 f8 f9 f10 f11 f12 f13 f14 f15 f16 f17 f18)
  have cb: "hue2rgb (1462769158969937 / 36028797018963968) (8625294006339975 / 36028797018963968) (1351079888211149 / 2251799813685248) = 8655558195835893 / 72057594037927936"
    by (rule hue2rgb_eval[where ?t1.0 = "1351079888211149 / 2251799813685248" and t = "1351079888211149 / 2251799813685248"])
       (simp_all add: fl_consts f1 f2 f3 f4 f5 f6 f7 f8 f9 f10 f11 f12 f13 f14 f15 f16 f17 f18)
  show ?thesis
    by (rule hslToRgb_chromatic[where h = "4203359652212463 / 4503599627370496"
          and s = "799388933858263 / 1125899906842624"
          and l = "1261007895663739 / 9007199254740992"
          and q = "8625294006339975 / 36028797018963968"
          and p = "1462769158969937 / 36028797018963968"
          and r = "8625294006339975 / 36028797018963968"
          and g = "1462769158969937 / 36028797018963968"
          and b = "8655558195835893 / 72057594037927936"])
       (simp_all add: round_def fl_consts cr cg cb f1 f2 f3 f4 f5 f6 f7 f8 f9 f10 f11 f12 f13 f14 f15 f16 f17 f18)
qed

lemma rgbToHsl_61_10_31: "rgbToHsl 61 10 31 = \<lparr>hsl_h = 335, hsl_s = 72, hsl_l = 14\<rparr>"
proof -
  have f1: "fl (61 / 255) = 8618653404536479 / 36028797018963968"
    by (rule fl_evalI[where k = 55]) (simp_all add: rne_def Let_def)
  have f2: "fl (2 / 51) = 1412894000743685 / 36028797018963968"
    by (rule fl_evalI[where k = 57]) (simp_all add: rne_def Let_def)
  have f3: "fl (31 / 255) = 8759942804610847 / 72057594037927936"
    by (rule fl_evalI[where k = 56]) (simp_all add: rne_def Let_def)
  have f4: "fl (2507886851320041 / 9007199254740992) = 2507886851320041 / 9007199254740992"
    by (rule fl_evalI[where k = 54]) (simp_all add: rne_def Let_def)
  have f5: "fl (2507886851320041 / 18014398509481984) = 2507886851320041 / 18014398509481984"
    by (rule fl_evalI[where k = 55]) (simp_all add: rne_def Let_def)
  have f6: "fl (3602879701896397 / 18014398509481984) = 3602879701896397 / 18014398509481984"
    by (rule fl_evalI[where k = 55]) (simp_all add: rne_def Let_def)
  have f7: "fl (3602879701896397 / 5015773702640082) = 6469960028053389 / 9007199254740992"
    by (rule fl_evalI[where k = 53]) (simp_all add: rne_def Let_def)
  have f8: "fl (- (5934154803123477 / 72057594037927936)) = - (5934154803123477 / 72057594037927936)"
    by (rule fl_evalI[where k = 56]) (simp_all add: rne_def Let_def)
  have f9: "fl (- (5934154803123477 / 14411518807585588)) = - (3708846751952173 / 9007199254740992)"
    by (rule fl_evalI[where k = 54]) (simp_all add: rne_def Let_def)
  have f10: "fl (50334348776493779 / 9007199254740992) = 3145896798530861 / 562949953421312"
    by (rule fl_evalI[where k = 50]) (simp_all add: rne_def Let_def)
  have f11: "fl (3145896798530861 / 3377699720527872) = 8389058129415629 / 9007199254740992"
    by (rule fl_evalI[where k = 53]) (simp_all add: rne_def Let_def)
  have f12: "fl (377507615823703305 / 1125899906842624) = 1474639124311341 / 4398046511104"
    by (rule fl_evalI[where k = 44]) (simp_all add: rne_def Let_def)
  have f13: "fl (161749000701334725 / 2251799813685248) = 2527328135958355 / 35184372088832"
    by (rule fl_evalI[where k = 46]) (simp_all add: rne_def Let_def)
  have f14: "fl (62697171283001025 / 4503599627370496) = 979643301296891 / 70368744177664"
    by (rule fl_evalI[where k = 49]) (simp_all add: rne_def Let_def)
  show ?thesis
    by (rule rgbToHsl_chromatic[where r = "8618653404536479 / 36028797018963968"
          and g = "1412894000743685 / 36028797018963968"
          and b = "8759942804610847 / 72057594037927936"
          and mx = "8618653404536479 / 36028797018963968"
          and mn = "1412894000743685 / 36028797018963968"
          and l = "2507886851320041 / 18014398509481984"
          and d = "3602879701896397 / 18014398509481984"
          and s = "6469960028053389 / 9007199254740992"
          and h = "8389058129415629 / 9007199254740992"])
       (simp_all add: round_def fl_consts f1 f2 f3 f4 f5 f6 f7 f8 f9 f10 f11 f12 f13 f14)
qed

lemma rgbToHsl_0_0_2: "rgbToHsl 0 0 2 = \<lparr>hsl_h = 240, hsl_s = 100, hsl_l = 0\<rparr>"
proof -
  have f1: "fl (2 / 255) = 282578800148737 / 36028797018963968"
    by (rule fl_evalI[where k = 59]) (simp_all add: rne_def Let_def)
  have f2: "fl (282578800148737 / 36028797018963968) = 282578800148737 / 36028797018963968"
    by (rule fl_evalI[where k = 59]) (simp_all add: rne_def Let_def)
  have f3: "fl (282578800148737 / 72057594037927936) = 282578800148737 / 72057594037927936"
    by (rule fl_evalI[where k = 60]) (simp_all add: rne_def Let_def)
  have f4: "fl (270215977642229745 / 1125899906842624) = 240"
    by (rule fl_evalI[where k = 45]) (simp_all add: rne_def Let_def)
  have f5: "fl (7064470003718425 / 18014398509481984) = 7064470003718425 / 18014398509481984"
    by (rule fl_evalI[where k = 54]) (simp_all add: rne_def Let_def)
  show ?thesis
    by (rule rgbToHsl_chromatic[where r = "0"
          and g = "0"
          and b = "282578800148737 / 36028797018963968"
          and mx = "282578800148737 / 36028797018963968"
          and mn = "0"
          and l = "282578800148737 / 72057594037927936"
          and d = "282578800148737 / 36028797018963968"
          and s = "1"
          and h = "6004799503160661 / 9007199254740992"])
       (simp_all add: round_def fl_consts f1 f2 f3 f4 f5)
qed

lemma hslToRgb_240_100_0: "hslToRgb 240 100 0 = \<lparr>rgb_r = 0, rgb_g = 0, rgb_b = 0\<rparr>"
proof -
  have f1: "fl (18014398509481983 / 18014398509481984) = 1"
    by (rule fl_evalI[where k = 53]) (simp_all add: rne_def Let_def)
  have f2: "fl (6004799503160661 / 18014398509481984) = 6004799503160661 / 18014398509481984"
    by (rule fl_evalI[where k = 54]) (simp_all add: rne_def Let_def)
  have cr: "hue2rgb 0 0 1 = 0"
    by (rule hue2rgb_eval[where ?t1.0 = "1" and t = "1"])
       (simp_all add: fl_consts f1 f2)
  have cg: "hue2rgb 0 0 (6004799503160661 / 9007199254740992) = 0"
    by (rule hue2rgb_eval[where ?t1.0 = "6004799503160661 / 9007199254740992" and t = "6004799503160661 / 9007199254740992"])
       (simp_all add: fl_consts f1 f2)
  have cb: "hue2rgb 0 0 (6004799503160661 / 18014398509481984) = 0"
    by (rule hue2rgb_eval[where ?t1.0 = "6004799503160661 / 18014398509481984" and t = "6004799503160661 / 18014398509481984"])
       (simp_all add: fl_consts f1 f2)
  show ?thesis
    by (rule hslToRgb_chromatic[where h = "6004799503160661 / 9007199254740992"
          and s = "1"
          and l = "0"
          and q = "0"
          and p = "0"
          and r = "0"
          and g = "0"
          and b = "0"])
       (simp_all add: round_def fl_consts cr cg cb f1 f2)
qed

lemma rgbToHsl_2_228_230: "rgbToHsl 2 228 230 = \<lparr>hsl_h = 181, hsl_s = 98, hsl_l = 45\<rparr>"
proof -
  have f1: "fl (2 / 255) = 282578800148737 / 36028797018963968"
    by (rule fl_evalI[where k = 59]) (simp_all add: rne_def Let_def)
  have f2: "fl (76 / 85) = 8053495804239005 / 9007199254740992"
    by (rule fl_evalI[where k = 53]) (simp_all add: rne_def Let_def)
  have f3: "fl (46 / 51) = 8124140504276189 / 9007199254740992"
    by (rule fl_evalI[where k = 53]) (simp_all add: rne_def Let_def)
  have f4: "fl (32779140817253493 / 36028797018963968) = 8194785204313373 / 9007199254740992"
    by (rule fl_evalI[where k = 53]) (simp_all add: rne_def Let_def)
  have f5: "fl (8194785204313373 / 18014398509481984) = 8194785204313373 / 18014398509481984"
    by (rule fl_evalI[where k = 54]) (simp_all add: rne_def Let_def)
  have f6: "fl (32213983216956019 / 36028797018963968) = 8053495804239005 / 9007199254740992"
    by (rule fl_evalI[where k = 53]) (simp_all add: rne_def Let_def)
  have f7: "fl (8053495804239005 / 8194785204313373) = 2212975678966537 / 2251799813685248"
    by (rule fl_evalI[where k = 53]) (simp_all add: rne_def Let_def)
  have f8: "fl (- (31931404416807283 / 36028797018963968)) = - (7982851104201821 / 9007199254740992)"
    by (rule fl_evalI[where k = 53]) (simp_all add: rne_def Let_def)
  have f9: "fl (- (7982851104201821 / 8053495804239005)) = - (8928188734962563 / 9007199254740992)"
    by (rule fl_evalI[where k = 53]) (simp_all add: rne_def Let_def)
  have f10: "fl (27100608284001405 / 9007199254740992) = 6775152071000351 / 2251799813685248"
    by (rule fl_evalI[where k = 51]) (simp_all add: rne_def Let_def)
  have f11: "fl (6775152071000351 / 13510798882111488) = 4516768047333567 / 9007199254740992"
    by (rule fl_evalI[where k = 53]) (simp_all add: rne_def Let_def)
  have f12: "fl (203254562130010515 / 1125899906842624) = 6351705066562829 / 35184372088832"
    by (rule fl_evalI[where k = 45]) (simp_all add: rne_def Let_def)
  have f13: "fl (55324391974163425 / 562949953421312) = 1728887249192607 / 17592186044416"
    by (rule fl_evalI[where k = 46]) (simp_all add: rne_def Let_def)
  have f14: "fl (204869630107834325 / 4503599627370496) = 6402175940869823 / 140737488355328"
    by (rule fl_evalI[where k = 47]) (simp_all add: rne_def Let_def)
  show ?thesis
    by (rule rgbToHsl_chromatic[where r = "282578800148737 / 36028797018963968"
          and g = "8053495804239005 / 9007199254740992"
          and b = "8124140504276189 / 9007199254740992"
          and mx = "8124140504276189 / 9007199254740992"
          and mn = "282578800148737 / 36028797018963968"
          and l = "8194785204313373 / 18014398509481984"
          and d = "8053495804239005 / 9007199254740992"
          and s = "2212975678966537 / 2251799813685248"
          and h = "4516768047333567 / 9007199254740992"])
       (simp_all add: round_def fl_consts f1 f2 f3 f4 f5 f6 f7 f8 f9 f10 f11 f12 f13 f14)
qed

lemma hslToRgb_181_98_45: "hslToRgb 181 98 45 = \<lparr>rgb_r = 2, rgb_g = 223, rgb_b = 227\<rparr>"
proof -
  have f1: "fl (181 / 360) = 1132154906325083 / 2251799813685248"
    by (rule fl_evalI[where k = 53]) (simp_all add: rne_def Let_def)
  have f2: "fl (49 / 50) = 2206763817411543 / 2251799813685248"
    by (rule fl_evalI[where k = 53]) (simp_all add: rne_def Let_def)
  have f3: "fl (9 / 20) = 8106479329266893 / 18014398509481984"
    by (rule fl_evalI[where k = 54]) (simp_all add: rne_def Let_def)
  have f4: "fl (4458563631096791 / 2251799813685248) = 4458563631096791 / 2251799813685248"
    by (rule fl_evalI[where k = 52]) (simp_all add: rne_def Let_def)
  have f5: "fl (36143253913707277262927554840363 / 40564819207303340847894502572032) = 501588408498389 / 562949953421312"
    by (rule fl_evalI[where k = 53]) (simp_all add: rne_def Let_def)
  have f6: "fl (8106479329266893 / 9007199254740992) = 8106479329266893 / 9007199254740992"
    by (rule fl_evalI[where k = 53]) (simp_all add: rne_def Let_def)
  have f7: "fl (81064793292669 / 9007199254740992) = 81064793292669 / 9007199254740992"
    by (rule fl_evalI[where k = 59]) (simp_all add: rne_def Let_def)
  have f8: "fl (15062038753761325 / 18014398509481984) = 3765509688440331 / 4503599627370496"
    by (rule fl_evalI[where k = 53]) (simp_all add: rne_def Let_def)
  have f9: "fl (7944349742681555 / 9007199254740992) = 7944349742681555 / 9007199254740992"
    by (rule fl_evalI[where k = 53]) (simp_all add: rne_def Let_def)
  have f10: "fl (1476179877860329 / 9007199254740992) = 1476179877860329 / 9007199254740992"
    by (rule fl_evalI[where k = 55]) (simp_all add: rne_def Let_def)
  have f11: "fl (11727289232831393979840214531595 / 81129638414606681695789005144064) = 5207962609091241 / 36028797018963968"
    by (rule fl_evalI[where k = 55]) (simp_all add: rne_def Let_def)
  have f12: "fl (15623887827273723 / 18014398509481984) = 3905971956818431 / 4503599627370496"
    by (rule fl_evalI[where k = 53]) (simp_all add: rne_def Let_def)
  have f13: "fl (7893008706929531 / 9007199254740992) = 7893008706929531 / 9007199254740992"
    by (rule fl_evalI[where k = 53]) (simp_all add: rne_def Let_def)
  have f14: "fl (3052439747440003 / 18014398509481984) = 3052439747440003 / 18014398509481984"
    by (rule fl_evalI[where k = 55]) (simp_all add: rne_def Let_def)
  have f15: "fl (20671522289630595 / 9007199254740992) = 5167880572407649 / 2251799813685248"
    by (rule fl_evalI[where k = 51]) (simp_all add: rne_def Let_def)
  have f16: "fl (2012717220267030405 / 9007199254740992) = 982772080208511 / 4398046511104"
    by (rule fl_evalI[where k = 45]) (simp_all add: rne_def Let_def)
  have f17: "fl (127905044167089195 / 562949953421312) = 7994065260443075 / 35184372088832"
    by (rule fl_evalI[where k = 45]) (simp_all add: rne_def Let_def)
  have cr: "hue2rgb (81064793292669 / 9007199254740992) (501588408498389 / 562949953421312) (3765509688440331 / 4503599627370496) = 81064793292669 / 9007199254740992"
    by (rule hue2rgb_eval[where ?t1.0 = "3765509688440331 / 4503599627370496" and t = "3765509688440331 / 4503599627370496"])
       (simp_all add: fl_consts f1 f2 f3 f4 f5 f6 f7 f8 f9 f10 f11 f12 f13 f14 f15 f16 f17)
  have cg: "hue2rgb (81064793292669 / 9007199254740992) (501588408498389 / 562949953421312) (1132154906325083 / 2251799813685248) = 7893008706929531 / 9007199254740992"
    by (rule hue2rgb_eval[where ?t1.0 = "1132154906325083 / 2251799813685248" and t = "1132154906325083 / 2251799813685248"])
       (simp_all add: fl_consts f1 f2 f3 f4 f5 f6 f7 f8 f9 f10 f11 f12 f13 f14 f15 f16 f17)
  have cb: "hue2rgb (81064793292669 / 9007199254740992) (501588408498389 / 562949953421312) (3052439747440003 / 18014398509481984) = 501588408498389 / 562949953421312"
    by (rule hue2rgb_eval[where ?t1.0 = "3052439747440003 / 18014398509481984" and t = "3052439747440003 / 18014398509481984"])
       (simp_all add: fl_consts f1 f2 f3 f4 f5 f6 f7 f8 f9 f10 f11 f12 f13 f14 f15 f16 f17)
  show ?thesis
    by (rule hslToRgb_chromatic[where h = "1132154906325083 / 2251799813685248"
          and s = "2206763817411543 / 2251799813685248"
          and l = "8106479329266893 / 18014398509481984"
          and q = "501588408498389 / 562949953421312"
          and p = "81064793292669 / 9007199254740992"
          and r = "81064793292669 / 9007199254740992"
          and g = "7893008706929531 / 9007199254740992"
          and b = "501588408498389 / 562949953421312"])
       (simp_all add: round_def fl_consts cr cg cb f1 f2 f3 f4 f5 f6 f7 f8 f9 f10 f11 f12 f13 f14 f15 f16 f17)
qed

text \<open>
  The rounding of the doubles decides on which side of a half a scaled channel falls. In
  exact arithmetic the green and blue channels of \<open>hslToRgb(0, 50, 20)\<close> are
  \<open>p = 2 * 0.2 - 0.3 = 0.1\<close>, that is \<open>25.5\<close> units, which \<open>Math.round\<close> would take to
  \<open>26\<close>; the double \<open>p\<close> is \<open>0.09999999999999998\<close>, the product
  \<open>25.499999999999993\<close>, and the channels are \<open>25\<close>. Likewise the hue of
  \<open>rgbToHsl(0, 13, 40)\<close> is \<open>220\<close>, the double \<open>h * 360\<close> lying just below \<open>220.5\<close>.
\<close>

lemma hslToRgb_0_50_20: "hslToRgb 0 50 20 = \<lparr>rgb_r = 77, rgb_g = 25, rgb_b = 25\<rparr>"
proof -
  have f1: "fl (1 / 5) = 3602879701896397 / 18014398509481984"
    by (rule fl_evalI[where k = 55]) (simp_all add: rne_def Let_def)
  have f2: "fl (3 / 2) = 3 / 2"
    by (rule fl_evalI[where k = 52]) (simp_all add: rne_def Let_def)
  have f3: "fl (10808639105689191 / 36028797018963968) = 1351079888211149 / 4503599627370496"
    by (rule fl_evalI[where k = 54]) (simp_all add: rne_def Let_def)
  have f4: "fl (3602879701896397 / 9007199254740992) = 3602879701896397 / 9007199254740992"
    by (rule fl_evalI[where k = 54]) (simp_all add: rne_def Let_def)
  have f5: "fl (900719925474099 / 9007199254740992) = 900719925474099 / 9007199254740992"
    by (rule fl_evalI[where k = 56]) (simp_all add: rne_def Let_def)
  have f6: "fl (6004799503160661 / 18014398509481984) = 6004799503160661 / 18014398509481984"
    by (rule fl_evalI[where k = 54]) (simp_all add: rne_def Let_def)
  have f7: "fl (1801439850948199 / 9007199254740992) = 1801439850948199 / 9007199254740992"
    by (rule fl_evalI[where k = 55]) (simp_all add: rne_def Let_def)
  have f8: "fl (5404319552844597 / 4503599627370496) = 5404319552844597 / 4503599627370496"
    by (rule fl_evalI[where k = 52]) (simp_all add: rne_def Let_def)
  have f9: "fl (- (6004799503160661 / 18014398509481984)) = - (6004799503160661 / 18014398509481984)"
    by (rule fl_evalI[where k = 54]) (simp_all add: rne_def Let_def)
  have f10: "fl (12009599006321323 / 18014398509481984) = 3002399751580331 / 4503599627370496"
    by (rule fl_evalI[where k = 53]) (simp_all add: rne_def Let_def)
  have f11: "fl (344525371493842995 / 4503599627370496) = 5383208929591297 / 70368744177664"
    by (rule fl_evalI[where k = 46]) (simp_all add: rne_def Let_def)
  have f12: "fl (229683580995895245 / 9007199254740992) = 3588805953060863 / 140737488355328"
    by (rule fl_evalI[where k = 48]) (simp_all add: rne_def Let_def)
  have cr: "hue2rgb (900719925474099 / 9007199254740992) (1351079888211149 / 4503599627370496) (6004799503160661 / 18014398509481984) = 1351079888211149 / 4503599627370496"
    by (rule hue2rgb_eval[where ?t1.0 = "6004799503160661 / 18014398509481984" and t = "6004799503160661 / 18014398509481984"])
       (simp_all add: fl_consts f1 f2 f3 f4 f5 f6 f7 f8 f9 f10 f11 f12)
  have cg: "hue2rgb (900719925474099 / 9007199254740992) (1351079888211149 / 4503599627370496) 0 = 900719925474099 / 9007199254740992"
    by (rule hue2rgb_eval[where ?t1.0 = "0" and t = "0"])
       (simp_all add: fl_consts f1 f2 f3 f4 f5 f6 f7 f8 f9 f10 f11 f12)
  have cb: "hue2rgb (900719925474099 / 9007199254740992) (1351079888211149 / 4503599627370496) (- (6004799503160661 / 18014398509481984)) = 900719925474099 / 9007199254740992"
    by (rule hue2rgb_eval[where ?t1.0 = "3002399751580331 / 4503599627370496" and t = "3002399751580331 / 4503599627370496"])
       (simp_all add: fl_consts f1 f2 f3 f4 f5 f6 f7 f8 f9 f10 f11 f12)
  show ?thesis
    by (rule hslToRgb_chromatic[where h = "0"
          and s = "1 / 2"
          and l = "3602879701896397 / 18014398509481984"
          and q = "1351079888211149 / 4503599627370496"
          and p = "900719925474099 / 9007199254740992"
          and r = "1351079888211149 / 4503599627370496"
          and g = "900719925474099 / 9007199254740992"
          and b = "900719925474099 / 9007199254740992"])
       (simp_all add: round_def fl_consts cr cg cb f1 f2 f3 f4 f5 f6 f7 f8 f9 f10 f11 f12)
qed

lemma rgbToHsl_0_13_40: "rgbToHsl 0 13 40 = \<lparr>hsl_h = 220, hsl_s = 100, hsl_l = 8\<rparr>"
proof -
  have f1: "fl (13 / 255) = 3673524401933581 / 72057594037927936"
    by (rule fl_evalI[where k = 57]) (simp_all add: rne_def Let_def)
  have f2: "fl (8 / 51) = 1412894000743685 / 9007199254740992"
    by (rule fl_evalI[where k = 55]) (simp_all add: rne_def Let_def)
  have f3: "fl (1412894000743685 / 9007199254740992) = 1412894000743685 / 9007199254740992"
    by (rule fl_evalI[where k = 55]) (simp_all add: rne_def Let_def)
  have f4: "fl (1412894000743685 / 18014398509481984) = 1412894000743685 / 18014398509481984"
    by (rule fl_evalI[where k = 56]) (simp_all add: rne_def Let_def)
  have f5: "fl (- (3673524401933581 / 72057594037927936)) = - (3673524401933581 / 72057594037927936)"
    by (rule fl_evalI[where k = 57]) (simp_all add: rne_def Let_def)
  have f6: "fl (- (13 / 40)) = - (5854679515581645 / 18014398509481984)"
    by (rule fl_evalI[where k = 54]) (simp_all add: rne_def Let_def)
  have f7: "fl (66202914522346291 / 18014398509481984) = 4137682157646643 / 1125899906842624"
    by (rule fl_evalI[where k = 51]) (simp_all add: rne_def Let_def)
  have f8: "fl (4137682157646643 / 6755399441055744) = 5516909543528857 / 9007199254740992"
    by (rule fl_evalI[where k = 53]) (simp_all add: rne_def Let_def)
  have f9: "fl (248260929458798565 / 1125899906842624) = 7758154045587455 / 35184372088832"
    by (rule fl_evalI[where k = 45]) (simp_all add: rne_def Let_def)
  have f10: "fl (35322350018592125 / 4503599627370496) = 8830587504648031 / 1125899906842624"
    by (rule fl_evalI[where k = 50]) (simp_all add: rne_def Let_def)
  show ?thesis
    by (rule rgbToHsl_chromatic[where r = "0"
          and g = "3673524401933581 / 72057594037927936"
          and b = "1412894000743685 / 9007199254740992"
          and mx = "1412894000743685 / 9007199254740992"
          and mn = "0"
          and l = "1412894000743685 / 18014398509481984"
          and d = "1412894000743685 / 9007199254740992"
          and s = "1"
          and h = "5516909543528857 / 9007199254740992"])
       (simp_all add: round_def fl_consts f1 f2 f3 f4 f5 f6 f7 f8 f9 f10)
qed

section \<open>The rounding error of the conversions\<close>

text \<open>
  Every operation of the conversions works on numbers below \<open>1024\<close>, where \<open>fl\<close> moves
  a result by at most \<open>eps = 2^(-43)\<close>. The lemmas of this section follow the conversions
  operation by operation and bound, by a multiple of \<open>eps\<close>, the distance between the
  numbers the source computes and those of exact arithmetic.
\<close>

lemma eps_pos: "0 < eps"
  by (simp add: eps_def)

lemma eps_small: "eps \<le> 1 / 1000000000000"
  by (simp add: eps_def)

lemma fl_near:
  assumes "- 1024 \<le> x" "x \<le> 1024"
  shows "\<bar>fl x - x\<bar> \<le> eps"
proof -
  have "\<bar>x\<bar> \<le> 2 ^ 10" using assms by (simp add: abs_le_iff)
  from fl_err_pow[OF this] show ?thesis by (simp add: eps_def)
qed

lemma fl_near_abs:
  assumes "\<bar>x\<bar> \<le> 1024"
  shows "\<bar>fl x - x\<bar> \<le> eps"
  using assms by (intro fl_near) (simp_all add: abs_le_iff)

lemma abs_prod_le:
  fixes x y a b :: real
  assumes "\<bar>x\<bar> \<le> a" "\<bar>y\<bar> \<le> b"
  shows "\<bar>x * y\<bar> \<le> a * b"
proof -
  have "0 \<le> a" using assms(1) by linarith
  then have "\<bar>x\<bar> * \<bar>y\<bar> \<le> a * b" using assms by (intro mult_mono) auto
  then show ?thesis by (simp add: abs_mult)
qed

lemma fl_prod_near:
  assumes "\<bar>x\<bar> \<le> a" "\<bar>y\<bar> \<le> b" "a * b \<le> 1024"
  shows "\<bar>fl (x * y) - x * y\<bar> \<le> eps"
  using abs_prod_le[OF assms(1,2)] assms(3) by (intro fl_near_abs) linarith

lemma hueShape_unit: "0 \<le> t \<Longrightarrow> t \<le> 1 \<Longrightarrow> hueShape t = rawShape t"
  by (simp add: hueShape_def)

lemma hueShape_range:
  assumes "- 1 \<le> t" "t \<le> 2"
  shows "0 \<le> hueShape t \<and> hueShape t \<le> 1"
  using assms by (auto simp: hueShape_def rawShape_def Let_def)

lemma hueShape_period:
  assumes "- 1 \<le> t" "t \<le> 1"
  shows "hueShape (t + 1) = hueShape t"
  using assms by (auto simp: hueShape_def rawShape_def Let_def)

lemma hueShape_lipschitz:
  assumes "- 1 \<le> t1" "t1 \<le> 2" "- 1 \<le> t2" "t2 \<le> 2"
  shows "\<bar>hueShape t1 - hueShape t2\<bar> \<le> 6 * \<bar>t1 - t2\<bar>"
  using assms by (auto simp: hueShape_def rawShape_def Let_def abs_if)

subsection \<open>From HSL to RGB\<close>

text \<open>The argument of the shape after the two adjustments of \<open>hue2rgb\<close>.\<close>

lemma wrapped_argument:
  fixes t0 t e :: real
  assumes t0: "- 1 / 2 \<le> t0" "t0 \<le> 3 / 2" and t: "\<bar>t0 - t\<bar> \<le> e" and e: "e \<le> 1 / 100"
  defines "t1 \<equiv> (if t0 < 0 then fl (t0 + 1) else t0)"
  defines "tt \<equiv> (if t1 > 1 then fl (t1 - 1) else t1)"
  shows "0 \<le> tt \<and> tt \<le> 1 \<and> \<bar>rawShape tt - hueShape t\<bar> \<le> 6 * e + 12 * eps"
proof -
  note es = eps_pos eps_small
  have e0: "0 \<le> e" using t by linarith
  have key: "0 \<le> tt \<and> tt \<le> 1 \<and>
      ((\<bar>tt - (t + 1)\<bar> \<le> e + 2 * eps \<and> t \<le> 1) \<or> \<bar>tt - t\<bar> \<le> e + 2 * eps \<or>
       (\<bar>tt - (t - 1)\<bar> \<le> e + 2 * eps \<and> 0 \<le> t))"
  proof (cases "t0 < 0")
    case True
    have a: "\<bar>fl (t0 + 1) - (t0 + 1)\<bar> \<le> eps" using t0 True by (intro fl_near) auto
    show ?thesis
    proof (cases "fl (t0 + 1) > 1")
      case gt: True
      have pos: "0 \<le> fl (fl (t0 + 1) - 1)" using gt by (intro fl_nonneg) simp
      have c: "\<bar>fl (fl (t0 + 1) - 1) - (fl (t0 + 1) - 1)\<bar> \<le> eps"
        using a t0 True es by (intro fl_near) linarith+
      have tt: "tt = fl (fl (t0 + 1) - 1)" using True gt by (simp add: tt_def t1_def)
      show ?thesis unfolding tt using pos c a gt True t es e by (auto simp: abs_le_iff) 
    next
      case le: False
      have tt: "tt = fl (t0 + 1)" using True le by (simp add: tt_def t1_def)
      show ?thesis unfolding tt using a le True t t0 es e by (auto simp: abs_le_iff)
    qed
  next
    case False
    show ?thesis
    proof (cases "t0 > 1")
      case gt: True
      have pos: "0 \<le> fl (t0 - 1)" using gt by (intro fl_nonneg) simp
      have b: "\<bar>fl (t0 - 1) - (t0 - 1)\<bar> \<le> eps" using t0 gt by (intro fl_near) auto
      have tt: "tt = fl (t0 - 1)" using False gt by (simp add: tt_def t1_def)
      show ?thesis unfolding tt using pos b gt t t0 es e by (auto simp: abs_le_iff)
    next
      case le: False
      have tt: "tt = t0" using False le by (simp add: tt_def t1_def)
      show ?thesis unfolding tt using False le t es e by (auto simp: abs_le_iff)
    qed
  qed
  then have tt: "0 \<le> tt" "tt \<le> 1" by auto
  have tr: "- 1 \<le> t" "t \<le> 2" using t t0 e by (auto simp: abs_le_iff)
  have raw: "rawShape tt = hueShape tt" using tt by (simp add: hueShape_unit)
  from key consider
    (up) "\<bar>tt - (t + 1)\<bar> \<le> e + 2 * eps" "t \<le> 1"
    | (same) "\<bar>tt - t\<bar> \<le> e + 2 * eps"
    | (down) "\<bar>tt - (t - 1)\<bar> \<le> e + 2 * eps" "0 \<le> t"
    by blast
  then have "\<bar>hueShape tt - hueShape t\<bar> \<le> 6 * (e + 2 * eps)"
  proof cases
    case up
    have "\<bar>hueShape tt - hueShape (t + 1)\<bar> \<le> 6 * \<bar>tt - (t + 1)\<bar>"
      using tt tr up by (intro hueShape_lipschitz) auto
    moreover have "hueShape (t + 1) = hueShape t" using tr up by (intro hueShape_period) auto
    ultimately show ?thesis using up by simp
  next
    case same
    have "\<bar>hueShape tt - hueShape t\<bar> \<le> 6 * \<bar>tt - t\<bar>"
      using tt tr by (intro hueShape_lipschitz) auto
    then show ?thesis using same by simp
  next
    case down
    have "\<bar>hueShape tt - hueShape (t - 1)\<bar> \<le> 6 * \<bar>tt - (t - 1)\<bar>"
      using tt tr down by (intro hueShape_lipschitz) auto
    moreover have "hueShape (t - 1 + 1) = hueShape (t - 1)"
      using tr down by (intro hueShape_period) auto
    ultimately show ?thesis using down by simp
  qed
  then show ?thesis using tt raw by simp
qed


lemma abs_sum4_le:
  fixes a b c d :: real
  assumes "\<bar>a\<bar> \<le> x" "\<bar>b\<bar> \<le> y" "\<bar>c\<bar> \<le> z" "\<bar>d\<bar> \<le> w"
  shows "\<bar>a + b + c + d\<bar> \<le> x + y + z + w"
  using assms by linarith

lemma fl_const_near: "\<bar>fl (1 / 6) - 1 / 6\<bar> \<le> eps" "\<bar>fl (2 / 3) - 2 / 3\<bar> \<le> eps"
  "\<bar>fl (1 / 3) - 1 / 3\<bar> \<le> eps"
  by (rule fl_near; simp)+

text \<open>The four branches of \<open>hue2rgb\<close>, on an argument in \<open>[0, 1]\<close>.\<close>

lemma hue_branches_near:
  fixes p q tt :: real
  assumes p: "\<bar>p\<bar> \<le> 2" and q: "\<bar>q\<bar> \<le> 2" and tt: "0 \<le> tt" "tt \<le> 1"
  shows "\<bar>(if tt < fl (1 / 6) then fl (p + fl (fl (fl (q - p) * 6) * tt))
           else if tt < fl (1 / 2) then q
           else if tt < fl (2 / 3) then fl (p + fl (fl (fl (q - p) * fl (fl (2 / 3) - tt)) * 6))
           else p) - (p + (q - p) * rawShape tt)\<bar> \<le> 100 * eps"
proof -
  note es = eps_pos eps_small
  define D where "D = q - p"
  define Dq where "Dq = fl (q - p)"
  have D: "\<bar>D\<bar> \<le> 4" using p q by (simp add: D_def abs_le_iff)
  have Dq: "\<bar>Dq - D\<bar> \<le> eps" unfolding Dq_def D_def using p q by (intro fl_near) (auto simp: abs_le_iff)
  have Dq5: "\<bar>Dq\<bar> \<le> 5" using D Dq es by linarith
  have att: "\<bar>tt\<bar> \<le> 1" using tt by simp
  have c16: "\<bar>fl (1 / 6) - 1 / 6\<bar> \<le> eps" and c23: "\<bar>fl (2 / 3) - 2 / 3\<bar> \<le> eps"
    by (rule fl_const_near)+
  have c12: "fl (1 / 2) = 1 / 2" by (rule fl_consts)
  consider (b1) "tt < fl (1 / 6)"
    | (b2) "fl (1 / 6) \<le> tt" "tt < 1 / 2"
    | (b3) "fl (1 / 6) \<le> tt" "1 / 2 \<le> tt" "tt < fl (2 / 3)"
    | (b4) "fl (1 / 6) \<le> tt" "1 / 2 \<le> tt" "fl (2 / 3) \<le> tt"
    by linarith
  then show ?thesis
  proof cases
    case b1
    define x1 where "x1 = fl (Dq * 6)"
    define x2 where "x2 = fl (x1 * tt)"
    define v where "v = fl (p + x2)"
    have x1: "\<bar>x1 - Dq * 6\<bar> \<le> eps" unfolding x1_def using Dq5 by (intro fl_near) (auto simp: abs_le_iff)
    have x1b: "\<bar>x1\<bar> \<le> 31" using x1 Dq5 es by linarith
    have x2: "\<bar>x2 - x1 * tt\<bar> \<le> eps" unfolding x2_def by (rule fl_prod_near[OF x1b att]) simp
    have "\<bar>x1 * tt\<bar> \<le> 31 * 1" by (rule abs_prod_le[OF x1b att])
    then have x2b: "\<bar>x2\<bar> \<le> 32" using x2 es by linarith
    have v: "\<bar>v - (p + x2)\<bar> \<le> eps" unfolding v_def using p x2b by (intro fl_near) (auto simp: abs_le_iff)
    have r1: "\<bar>(x1 - Dq * 6) * tt\<bar> \<le> eps * 1" by (rule abs_prod_le[OF x1 att])
    have "\<bar>6 * (Dq - D)\<bar> \<le> 6 * eps" using Dq by simp
    then have r2: "\<bar>6 * (Dq - D) * tt\<bar> \<le> 6 * eps * 1" using att by (rule abs_prod_le)
    have "v - (p + D * (6 * tt)) = (v - (p + x2)) + (x2 - x1 * tt) + (x1 - Dq * 6) * tt + 6 * (Dq - D) * tt"
      by (simp add: algebra_simps)
    then have s1: "\<bar>v - (p + D * (6 * tt))\<bar> \<le> 9 * eps"
      using abs_sum4_le[OF v x2 r1 r2] by simp
    have "\<bar>6 * tt - rawShape tt\<bar> \<le> 6 * eps"
      using b1 c16 tt es by (auto simp: rawShape_def abs_le_iff)
    with D have "\<bar>D * (6 * tt - rawShape tt)\<bar> \<le> 4 * (6 * eps)" by (rule abs_prod_le)
    then have s2: "\<bar>(p + D * (6 * tt)) - (p + D * rawShape tt)\<bar> \<le> 24 * eps"
      by (simp add: algebra_simps)
    have "\<bar>v - (p + D * rawShape tt)\<bar> \<le> 100 * eps" using s1 s2 es by linarith
    then show ?thesis using b1 by (simp add: v_def x2_def x1_def Dq_def D_def)
  next
    case b2
    have "\<bar>1 - rawShape tt\<bar> \<le> 6 * eps"
      using b2 c16 tt es by (auto simp: rawShape_def abs_le_iff)
    with D have "\<bar>D * (1 - rawShape tt)\<bar> \<le> 4 * (6 * eps)" by (rule abs_prod_le)
    then have "\<bar>q - (p + D * rawShape tt)\<bar> \<le> 24 * eps"
      by (simp add: algebra_simps D_def)
    then have "\<bar>q - (p + D * rawShape tt)\<bar> \<le> 100 * eps" using es by linarith
    then show ?thesis using b2 c12 by (simp add: D_def)
  next
    case b3
    define y where "y = fl (fl (2 / 3) - tt)"
    define x1 where "x1 = fl (Dq * y)"
    define x2 where "x2 = fl (x1 * 6)"
    define v where "v = fl (p + x2)"
    have "\<bar>y - (fl (2 / 3) - tt)\<bar> \<le> eps" unfolding y_def using c23 tt es by (intro fl_near) (auto simp: abs_le_iff)
    then have y: "\<bar>y - (2 / 3 - tt)\<bar> \<le> 2 * eps" using c23 by linarith
    have yb: "\<bar>y\<bar> \<le> 1" using y b3 c23 tt es by (auto simp: abs_le_iff)
    have x1: "\<bar>x1 - Dq * y\<bar> \<le> eps" unfolding x1_def by (rule fl_prod_near[OF Dq5 yb]) simp
    have "\<bar>Dq * y\<bar> \<le> 5 * 1" by (rule abs_prod_le[OF Dq5 yb])
    then have x1b: "\<bar>x1\<bar> \<le> 6" using x1 es by linarith
    have x2: "\<bar>x2 - x1 * 6\<bar> \<le> eps" unfolding x2_def using x1b by (intro fl_near) (auto simp: abs_le_iff)
    have x2b: "\<bar>x2\<bar> \<le> 37" using x2 x1b es by linarith
    have v: "\<bar>v - (p + x2)\<bar> \<le> eps" unfolding v_def using p x2b by (intro fl_near) (auto simp: abs_le_iff)
    have r1: "\<bar>6 * (x1 - Dq * y)\<bar> \<le> 6 * eps" using x1 by simp
    have "\<bar>Dq * (y - (2 / 3 - tt))\<bar> \<le> 5 * (2 * eps)" by (rule abs_prod_le[OF Dq5 y])
    then have r2: "\<bar>6 * (Dq * (y - (2 / 3 - tt)))\<bar> \<le> 60 * eps" by simp
    have t23: "\<bar>2 / 3 - tt\<bar> \<le> 1" using tt by (auto simp: abs_le_iff)
    have "\<bar>(Dq - D) * (2 / 3 - tt)\<bar> \<le> eps * 1" by (rule abs_prod_le[OF Dq t23])
    then have r3: "\<bar>6 * ((Dq - D) * (2 / 3 - tt))\<bar> \<le> 6 * eps" by simp
    have a0: "\<bar>(v - (p + x2)) + (x2 - x1 * 6)\<bar> \<le> 2 * eps" using v x2 by linarith
    have eq: "v - (p + D * ((2 / 3 - tt) * 6)) =
        ((v - (p + x2)) + (x2 - x1 * 6)) + 6 * (x1 - Dq * y) + 6 * (Dq * (y - (2 / 3 - tt)))
        + 6 * ((Dq - D) * (2 / 3 - tt))"
      by (simp add: field_simps)
    have s1: "\<bar>v - (p + D * ((2 / 3 - tt) * 6))\<bar> \<le> 2 * eps + 6 * eps + 60 * eps + 6 * eps"
      unfolding eq by (rule abs_sum4_le[OF a0 r1 r2 r3])
    have "\<bar>(2 / 3 - tt) * 6 - rawShape tt\<bar> \<le> 6 * eps"
      using b3 c23 tt es by (auto simp: rawShape_def abs_le_iff)
    with D have "\<bar>D * ((2 / 3 - tt) * 6 - rawShape tt)\<bar> \<le> 4 * (6 * eps)" by (rule abs_prod_le)
    then have s2: "\<bar>(p + D * ((2 / 3 - tt) * 6)) - (p + D * rawShape tt)\<bar> \<le> 24 * eps"
      by (simp add: algebra_simps)
    have "\<bar>v - (p + D * rawShape tt)\<bar> \<le> 100 * eps" using s1 s2 es by linarith
    then show ?thesis using b3 c12 by (simp add: v_def x2_def x1_def y_def Dq_def D_def)
  next
    case b4
    have "\<bar>0 - rawShape tt\<bar> \<le> 6 * eps"
      using b4 c23 tt es by (auto simp: rawShape_def abs_le_iff)
    with D have "\<bar>D * (0 - rawShape tt)\<bar> \<le> 4 * (6 * eps)" by (rule abs_prod_le)
    then have "\<bar>p - (p + D * rawShape tt)\<bar> \<le> 24 * eps"
      by (simp add: algebra_simps D_def)
    then have "\<bar>p - (p + D * rawShape tt)\<bar> \<le> 100 * eps" using es by linarith
    then show ?thesis using b4 c12 by (simp add: D_def)
  qed
qed

lemma hue2rgb_near:
  fixes p q t0 t e :: real
  assumes p: "\<bar>p\<bar> \<le> 2" and q: "\<bar>q\<bar> \<le> 2"
    and t0: "- 1 / 2 \<le> t0" "t0 \<le> 3 / 2" and t: "\<bar>t0 - t\<bar> \<le> e" and e: "e \<le> 1 / 100"
  shows "\<bar>hue2rgb p q t0 - (p + (q - p) * hueShape t)\<bar> \<le> 24 * e + 148 * eps"
proof -
  define t1 where "t1 = (if t0 < 0 then fl (t0 + 1) else t0)"
  define tt where "tt = (if t1 > 1 then fl (t1 - 1) else t1)"
  have w: "0 \<le> tt \<and> tt \<le> 1 \<and> \<bar>rawShape tt - hueShape t\<bar> \<le> 6 * e + 12 * eps"
    unfolding tt_def t1_def by (rule wrapped_argument[OF t0 t e])
  then have tt: "0 \<le> tt" "tt \<le> 1" and sh: "\<bar>rawShape tt - hueShape t\<bar> \<le> 6 * e + 12 * eps"
    by auto
  have D: "\<bar>q - p\<bar> \<le> 4" using p q by (simp add: abs_le_iff)
  have "\<bar>(q - p) * (rawShape tt - hueShape t)\<bar> \<le> 4 * (6 * e + 12 * eps)"
    by (rule abs_prod_le[OF D sh])
  then have a: "\<bar>(p + (q - p) * rawShape tt) - (p + (q - p) * hueShape t)\<bar> \<le> 24 * e + 48 * eps"
    by (simp add: algebra_simps)
  have b: "\<bar>hue2rgb p q t0 - (p + (q - p) * rawShape tt)\<bar> \<le> 100 * eps"
    unfolding hue2rgb_def Let_def t1_def[symmetric] tt_def[symmetric]
    by (rule hue_branches_near[OF p q tt])
  show ?thesis using a b by linarith
qed


lemma abs_sum2_le:
  fixes x y :: real
  assumes "\<bar>x\<bar> \<le> a" "\<bar>y\<bar> \<le> b"
  shows "\<bar>x + y\<bar> \<le> a + b"
  using assms by linarith

lemma abs_sum3_le:
  fixes x y z :: real
  assumes "\<bar>x\<bar> \<le> a" "\<bar>y\<bar> \<le> b" "\<bar>z\<bar> \<le> c"
  shows "\<bar>x + y + z\<bar> \<le> a + b + c"
  using assms by linarith

text \<open>\<open>q\<close> and \<open>p\<close> of \<open>hslToRgb\<close>.\<close>

lemma chroma_range:
  fixes S L :: real
  assumes S: "0 \<le> S" "S \<le> 1" and L: "0 \<le> L" "L \<le> 1"
  shows "0 \<le> S * min L (1 - L)" "S * min L (1 - L) \<le> L" "S * min L (1 - L) \<le> 1 - L"
proof -
  have m: "0 \<le> min L (1 - L)" using L by simp
  show "0 \<le> S * min L (1 - L)" using S m by simp
  have "S * min L (1 - L) \<le> 1 * min L (1 - L)" using S m by (intro mult_right_mono) auto
  then show "S * min L (1 - L) \<le> L" "S * min L (1 - L) \<le> 1 - L" by auto
qed

lemma q_near:
  fixes s l S L :: real
  assumes S: "0 \<le> S" "S \<le> 1" and L: "0 \<le> L" "L \<le> 1"
    and s: "\<bar>s - S\<bar> \<le> eps" and l: "\<bar>l - L\<bar> \<le> eps"
  shows "\<bar>(if l < 1 / 2 then fl (l * fl (1 + s)) else fl (fl (l + s) - fl (l * s)))
          - (L + S * min L (1 - L))\<bar> \<le> 10 * eps"
proof -
  note es = eps_pos eps_small
  have sb: "\<bar>s\<bar> \<le> 2" and lb: "\<bar>l\<bar> \<le> 2" using S L s l es by (auto simp: abs_le_iff)
  have S1: "\<bar>S\<bar> \<le> 1" using S by simp
  show ?thesis
  proof (cases "l < 1 / 2")
    case True
    define a where "a = fl (1 + s)"
    define q where "q = fl (l * a)"
    have "\<bar>a - (1 + s)\<bar> \<le> eps" unfolding a_def using sb by (intro fl_near) (auto simp: abs_le_iff)
    then have a: "\<bar>a - (1 + S)\<bar> \<le> 2 * eps" using s by linarith
    have ab: "\<bar>a\<bar> \<le> 3" using a S es by (auto simp: abs_le_iff)
    have q: "\<bar>q - l * a\<bar> \<le> eps" unfolding q_def by (rule fl_prod_near[OF lb ab]) simp
    have r1: "\<bar>l * (a - (1 + S))\<bar> \<le> 2 * (2 * eps)" by (rule abs_prod_le[OF lb a])
    have "\<bar>1 + S\<bar> \<le> 2" using S by simp
    with l have r2: "\<bar>(l - L) * (1 + S)\<bar> \<le> eps * 2" by (rule abs_prod_le)
    have "\<bar>L - min L (1 - L)\<bar> \<le> 2 * eps" using True l by (auto simp: min_def abs_le_iff)
    with S1 have r3: "\<bar>S * (L - min L (1 - L))\<bar> \<le> 1 * (2 * eps)" by (rule abs_prod_le)
    have eq: "q - (L + S * min L (1 - L)) =
        (q - l * a) + l * (a - (1 + S)) + (l - L) * (1 + S) + S * (L - min L (1 - L))"
      by (simp add: algebra_simps)
    have "\<bar>q - (L + S * min L (1 - L))\<bar> \<le> eps + 2 * (2 * eps) + eps * 2 + 1 * (2 * eps)"
      unfolding eq by (rule abs_sum4_le[OF q r1 r2 r3])
    then have "\<bar>q - (L + S * min L (1 - L))\<bar> \<le> 10 * eps" using es by linarith
    then show ?thesis using True by (simp add: q_def a_def)
  next
    case False
    define b where "b = fl (l + s)"
    define c where "c = fl (l * s)"
    define q where "q = fl (b - c)"
    have b0: "\<bar>b - (l + s)\<bar> \<le> eps" unfolding b_def using sb lb by (intro fl_near) (auto simp: abs_le_iff)
    have bb: "\<bar>b\<bar> \<le> 5" using b0 sb lb es by linarith
    have c0: "\<bar>c - l * s\<bar> \<le> eps" unfolding c_def by (rule fl_prod_near[OF lb sb]) simp
    have "\<bar>l * s\<bar> \<le> 2 * 2" by (rule abs_prod_le[OF lb sb])
    then have cb: "\<bar>c\<bar> \<le> 5" using c0 es by linarith
    have q: "\<bar>q - (b - c)\<bar> \<le> eps" unfolding q_def using bb cb by (intro fl_near) (auto simp: abs_le_iff)
    have r1: "\<bar>l * (s - S)\<bar> \<le> 2 * eps" by (rule abs_prod_le[OF lb s])
    have r2: "\<bar>(l - L) * S\<bar> \<le> eps * 1" by (rule abs_prod_le[OF l S1])
    have "\<bar>(1 - L) - min L (1 - L)\<bar> \<le> 2 * eps" using False l by (auto simp: min_def abs_le_iff)
    with S1 have r3: "\<bar>S * ((1 - L) - min L (1 - L))\<bar> \<le> 1 * (2 * eps)" by (rule abs_prod_le)
    have a0: "\<bar>(q - (b - c)) + (b - (l + s)) - (c - l * s) + (l - L) + (s - S)\<bar> \<le> 5 * eps"
      using q b0 c0 l s by linarith
    have eq: "q - (L + S * min L (1 - L)) =
        ((q - (b - c)) + (b - (l + s)) - (c - l * s) + (l - L) + (s - S))
        + (- (l * (s - S))) + (- ((l - L) * S)) + S * ((1 - L) - min L (1 - L))"
      by (simp add: algebra_simps)
    have "\<bar>q - (L + S * min L (1 - L))\<bar> \<le> 5 * eps + 2 * eps + eps * 1 + 1 * (2 * eps)"
      unfolding eq using r1 r2 by (intro abs_sum4_le[OF a0 _ _ r3]) simp_all
    then have "\<bar>q - (L + S * min L (1 - L))\<bar> \<le> 10 * eps" using es by linarith
    then show ?thesis using False by (simp add: q_def b_def c_def)
  qed
qed

lemma p_near:
  fixes q l Q L :: real
  assumes L: "0 \<le> L" "L \<le> 1" and Q: "0 \<le> Q" "Q \<le> 1"
    and q: "\<bar>q - Q\<bar> \<le> 10 * eps" and l: "\<bar>l - L\<bar> \<le> eps"
  shows "\<bar>fl (fl (2 * l) - q) - (2 * L - Q)\<bar> \<le> 14 * eps"
proof -
  note es = eps_pos eps_small
  have f: "\<bar>fl (2 * l) - 2 * l\<bar> \<le> eps" using L l es by (intro fl_near) (auto simp: abs_le_iff)
  have "\<bar>fl (fl (2 * l) - q) - (fl (2 * l) - q)\<bar> \<le> eps"
    using f L l Q q es by (intro fl_near) (auto simp: abs_le_iff)
  then show ?thesis using f q l by linarith
qed

lemma mix_near:
  fixes p q P Q w :: real
  assumes p: "\<bar>p - P\<bar> \<le> 14 * eps" and q: "\<bar>q - Q\<bar> \<le> 10 * eps" and w: "0 \<le> w" "w \<le> 1"
  shows "\<bar>(p + (q - p) * w) - (P + (Q - P) * w)\<bar> \<le> 24 * eps"
proof -
  have w1: "\<bar>1 - w\<bar> \<le> 1" "\<bar>w\<bar> \<le> 1" using w by (auto simp: abs_le_iff)
  have r1: "\<bar>(p - P) * (1 - w)\<bar> \<le> 14 * eps * 1" by (rule abs_prod_le[OF p w1(1)])
  have r2: "\<bar>(q - Q) * w\<bar> \<le> 10 * eps * 1" by (rule abs_prod_le[OF q w1(2)])
  have eq: "(p + (q - p) * w) - (P + (Q - P) * w) = (p - P) * (1 - w) + (q - Q) * w"
    by (simp add: algebra_simps)
  show ?thesis unfolding eq using abs_sum2_le[OF r1 r2] by simp
qed

lemma channel_mix:
  "(L - S * min L (1 - L)) + ((L + S * min L (1 - L)) - (L - S * min L (1 - L))) * hueShape t
     = channelOf t S L"
  by (simp add: channelOf_def algebra_simps)

text \<open>
  The channels of \<open>hslToRgb\<close> before they are scaled and rounded are within \<open>250\<close>
  rounding units of the exact ones.
\<close>

lemma hslToRgb_channels:
  assumes h: "0 \<le> h0" "h0 \<le> 360" and s: "0 \<le> s0" "s0 \<le> 100" and l: "0 \<le> l0" "l0 \<le> 100"
  obtains vr vg vb where
    "hslToRgb h0 s0 l0 = \<lparr>rgb_r = round (fl (vr * 255)), rgb_g = round (fl (vg * 255)),
        rgb_b = round (fl (vb * 255))\<rparr>"
    "\<bar>vr - channelOf (h0 / 360 + 1 / 3) (s0 / 100) (l0 / 100)\<bar> \<le> 250 * eps"
    "\<bar>vg - channelOf (h0 / 360) (s0 / 100) (l0 / 100)\<bar> \<le> 250 * eps"
    "\<bar>vb - channelOf (h0 / 360 - 1 / 3) (s0 / 100) (l0 / 100)\<bar> \<le> 250 * eps"
proof -
  note es = eps_pos eps_small
  define H where "H = h0 / 360"
  define S where "S = s0 / 100"
  define L where "L = l0 / 100"
  define hf where "hf = fl (h0 / 360)"
  define sf where "sf = fl (s0 / 100)"
  define lf where "lf = fl (l0 / 100)"
  have H: "0 \<le> H" "H \<le> 1" using h by (auto simp: H_def)
  have S: "0 \<le> S" "S \<le> 1" using s by (auto simp: S_def)
  have L: "0 \<le> L" "L \<le> 1" using l by (auto simp: L_def)
  have hn: "\<bar>hf - H\<bar> \<le> eps" unfolding hf_def H_def using h by (intro fl_near) auto
  have sn: "\<bar>sf - S\<bar> \<le> eps" unfolding sf_def S_def using s by (intro fl_near) auto
  have ln: "\<bar>lf - L\<bar> \<le> eps" unfolding lf_def L_def using l by (intro fl_near) auto
  define m where "m = S * min L (1 - L)"
  have m: "0 \<le> m" "m \<le> L" "m \<le> 1 - L" unfolding m_def by (rule chroma_range[OF S L])+
  have w: "0 \<le> hueShape (H + dt) \<and> hueShape (H + dt) \<le> 1" if "- 1 / 3 \<le> dt" "dt \<le> 1 / 3" for dt
    using H that by (intro hueShape_range) auto
  show ?thesis
  proof (cases "sf = 0")
    case True
    have eq: "hslToRgb h0 s0 l0 = \<lparr>rgb_r = round (fl (lf * 255)), rgb_g = round (fl (lf * 255)),
        rgb_b = round (fl (lf * 255))\<rparr>"
      using True by (simp add: hslToRgb_def Let_def sf_def lf_def)
    have S0: "\<bar>S\<bar> \<le> eps" using sn True by simp
    have c: "\<bar>lf - channelOf (H + dt) S L\<bar> \<le> 250 * eps" if "- 1 / 3 \<le> dt" "dt \<le> 1 / 3" for dt
    proof -
      have "\<bar>min L (1 - L)\<bar> \<le> 1" using L by (auto simp: abs_le_iff)
      with S0 have "\<bar>S * min L (1 - L)\<bar> \<le> eps * 1" by (rule abs_prod_le)
      moreover have "\<bar>2 * hueShape (H + dt) - 1\<bar> \<le> 1" using w[OF that] by (auto simp: abs_le_iff)
      ultimately have "\<bar>S * min L (1 - L) * (2 * hueShape (H + dt) - 1)\<bar> \<le> eps * 1 * 1"
        by (rule abs_prod_le)
      then have "\<bar>S * min L (1 - L) * (2 * hueShape (H + dt) - 1)\<bar> \<le> eps" by simp
      then show ?thesis unfolding channelOf_def using ln es by linarith
    qed
    show ?thesis
      using c[of "1 / 3"] c[of 0] c[of "- 1 / 3"]
      by (intro that[OF eq]) (simp_all add: H_def S_def L_def)
  next
    case False
    define q where "q = (if lf < 1 / 2 then fl (lf * fl (1 + sf)) else fl (fl (lf + sf) - fl (lf * sf)))"
    define p where "p = fl (fl (2 * lf) - q)"
    define Q where "Q = L + m"
    define P where "P = L - m"
    have Q: "0 \<le> Q" "Q \<le> 1" using m L by (auto simp: Q_def)
    have P: "0 \<le> P" "P \<le> 1" using m L by (auto simp: P_def)
    have qn: "\<bar>q - Q\<bar> \<le> 10 * eps" unfolding q_def Q_def m_def by (rule q_near[OF S L sn ln])
    have "\<bar>p - (2 * L - Q)\<bar> \<le> 14 * eps" unfolding p_def by (rule p_near[OF L Q qn ln])
    then have pn: "\<bar>p - P\<bar> \<le> 14 * eps" by (simp add: P_def Q_def)
    have pb: "\<bar>p\<bar> \<le> 2" and qb: "\<bar>q\<bar> \<le> 2" using pn qn P Q es by (auto simp: abs_le_iff)
    have third: "\<bar>fl (1 / 3) - 1 / 3\<bar> \<le> eps" by (rule fl_const_near)
    define tr where "tr = fl (hf + fl (1 / 3))"
    define tb where "tb = fl (hf - fl (1 / 3))"
    have "\<bar>tr - (hf + fl (1 / 3))\<bar> \<le> eps" unfolding tr_def
      using hn H third es by (intro fl_near) (auto simp: abs_le_iff)
    then have trn: "\<bar>tr - (H + 1 / 3)\<bar> \<le> 3 * eps" using hn third by linarith
    have "\<bar>tb - (hf - fl (1 / 3))\<bar> \<le> eps" unfolding tb_def
      using hn H third es by (intro fl_near) (auto simp: abs_le_iff)
    then have tbn: "\<bar>tb - (H + - 1 / 3)\<bar> \<le> 3 * eps" using hn third by linarith
    have tgn: "\<bar>hf - (H + 0)\<bar> \<le> 3 * eps" using hn es by linarith
    have e3: "3 * eps \<le> 1 / 100" using es by linarith
    have ch: "\<bar>hue2rgb p q t0 - channelOf (H + dt) S L\<bar> \<le> 250 * eps"
      if "\<bar>t0 - (H + dt)\<bar> \<le> 3 * eps" "- 1 / 3 \<le> dt" "dt \<le> 1 / 3" for t0 dt
    proof -
      have t0: "- 1 / 2 \<le> t0" "t0 \<le> 3 / 2" using that H es by (auto simp: abs_le_iff)
      have a: "\<bar>hue2rgb p q t0 - (p + (q - p) * hueShape (H + dt))\<bar> \<le> 24 * (3 * eps) + 148 * eps"
        by (rule hue2rgb_near[OF pb qb t0 that(1) e3])
      have b: "\<bar>(p + (q - p) * hueShape (H + dt)) - (P + (Q - P) * hueShape (H + dt))\<bar> \<le> 24 * eps"
        using w[OF that(2,3)] by (intro mix_near[OF pn qn]) auto
      have "P + (Q - P) * hueShape (H + dt) = channelOf (H + dt) S L"
        unfolding P_def Q_def m_def by (rule channel_mix)
      then show ?thesis using a b es by linarith
    qed
    have eq: "hslToRgb h0 s0 l0 = \<lparr>rgb_r = round (fl (hue2rgb p q tr * 255)),
        rgb_g = round (fl (hue2rgb p q hf * 255)), rgb_b = round (fl (hue2rgb p q tb * 255))\<rparr>"
      using False by (simp add: hslToRgb_def Let_def sf_def lf_def hf_def q_def p_def tr_def tb_def)
    show ?thesis
      using ch[OF trn] ch[OF tgn] ch[OF tbn]
      by (intro that[OF eq]) (simp_all add: H_def S_def L_def)
  qed
qed

subsection \<open>From RGB to HSL\<close>

lemma div_near:
  fixes a a' b b' ea eb \<beta> :: real
  assumes a: "\<bar>a' - a\<bar> \<le> ea" and b: "\<bar>b' - b\<bar> \<le> eb" and ab: "\<bar>a\<bar> \<le> b"
    and \<beta>: "0 < \<beta>" "\<beta> \<le> b" "2 * eb \<le> \<beta>"
  shows "\<bar>a' / b' - a / b\<bar> \<le> 2 * (ea + eb) / \<beta>"
proof -
  have bpos: "0 < b" using \<beta> by linarith
  have b'lo: "\<beta> / 2 \<le> b'" using b \<beta> by linarith
  then have b'pos: "0 < b'" using \<beta> by linarith
  have ea0: "0 \<le> ea" and eb0: "0 \<le> eb" using a b by linarith+
  have "\<bar>a / b\<bar> \<le> 1" using ab bpos by (simp add: abs_le_iff field_simps)
  then have "\<bar>(a / b) * (b' - b)\<bar> \<le> 1 * eb" using b by (rule abs_prod_le)
  then have num: "\<bar>(a' - a) - (a / b) * (b' - b)\<bar> \<le> ea + eb" using a by linarith
  have eq: "a' / b' - a / b = ((a' - a) - (a / b) * (b' - b)) / b'"
    using bpos b'pos by (simp add: field_simps)
  have "\<bar>a' / b' - a / b\<bar> = \<bar>(a' - a) - (a / b) * (b' - b)\<bar> / b'"
    unfolding eq using b'pos by (simp add: abs_divide)
  also have "\<dots> \<le> (ea + eb) / (\<beta> / 2)"
    using num b'lo \<beta> ea0 eb0 by (intro frac_le) auto
  also have "\<dots> = 2 * (ea + eb) / \<beta>" by simp
  finally show ?thesis .
qed

lemma unitChannel_near:
  assumes "0 \<le> n" "n \<le> 255"
  shows "\<bar>unitChannel n - of_int n / 255\<bar> \<le> eps"
  unfolding unitChannel_def using assms by (intro fl_near) auto

lemma unitChannel_less:
  assumes "0 \<le> a" "a < b" "b \<le> 255"
  shows "unitChannel a < unitChannel b"
proof -
  have "\<bar>unitChannel a - of_int a / 255\<bar> \<le> eps" "\<bar>unitChannel b - of_int b / 255\<bar> \<le> eps"
    using assms by (auto intro!: unitChannel_near)
  moreover have "real_of_int a + 1 \<le> real_of_int b" using assms by linarith
  ultimately show ?thesis using eps_small by linarith
qed

lemma unitChannel_less_iff:
  assumes "0 \<le> a" "a \<le> 255" "0 \<le> b" "b \<le> 255"
  shows "unitChannel a < unitChannel b \<longleftrightarrow> a < b"
proof
  assume l: "unitChannel a < unitChannel b"
  show "a < b"
  proof (rule ccontr)
    assume "\<not> a < b"
    then have "b < a \<or> b = a" by linarith
    then show False using l unitChannel_less[of b a] assms by auto
  qed
next
  assume "a < b"
  then show "unitChannel a < unitChannel b" using assms by (intro unitChannel_less) auto
qed

lemma unitChannel_eq_iff:
  assumes "0 \<le> a" "a \<le> 255" "0 \<le> b" "b \<le> 255"
  shows "unitChannel a = unitChannel b \<longleftrightarrow> a = b"
  using unitChannel_less_iff[OF assms] unitChannel_less_iff[OF assms(3,4,1,2)] by auto

lemma unitChannel_max:
  assumes "0 \<le> a" "a \<le> 255" "0 \<le> b" "b \<le> 255"
  shows "max (unitChannel a) (unitChannel b) = unitChannel (max a b)"
    and "min (unitChannel a) (unitChannel b) = unitChannel (min a b)"
  using unitChannel_less_iff[OF assms] unitChannel_less_iff[OF assms(3,4,1,2)]
  by (auto simp: max_def min_def)

lemma lightness_near:
  fixes mxf mnf mx mn :: real
  assumes "\<bar>mxf - mx\<bar> \<le> eps" "\<bar>mnf - mn\<bar> \<le> eps" "0 \<le> mn" "mn \<le> mx" "mx \<le> 1"
  shows "\<bar>fl (fl (mxf + mnf) / 2) - (mx + mn) / 2\<bar> \<le> 3 * eps"
proof -
  note es = eps_pos eps_small
  have a: "\<bar>fl (mxf + mnf) - (mxf + mnf)\<bar> \<le> eps" using assms es by (intro fl_near) (auto simp: abs_le_iff)
  have "\<bar>fl (fl (mxf + mnf) / 2) - fl (mxf + mnf) / 2\<bar> \<le> eps"
    using a assms es by (intro fl_near) (auto simp: abs_le_iff)
  then show ?thesis using a assms(1,2) es unfolding add_divide_distrib by linarith
qed

lemma saturation_near:
  fixes M m :: int and mxf mnf lf df :: real
  assumes Mm: "0 \<le> m" "m < M" "M \<le> 255"
    and mxf: "\<bar>mxf - real_of_int M / 255\<bar> \<le> eps" and mnf: "\<bar>mnf - real_of_int m / 255\<bar> \<le> eps"
    and lf: "\<bar>lf - (real_of_int M / 255 + real_of_int m / 255) / 2\<bar> \<le> 3 * eps"
    and df: "\<bar>df - (real_of_int M / 255 - real_of_int m / 255)\<bar> \<le> 3 * eps"
  shows "\<bar>(if lf > 1 / 2 then fl (df / fl (fl (2 - mxf) - mnf)) else fl (df / fl (mxf + mnf)))
          - (if (real_of_int M / 255 + real_of_int m / 255) / 2 > 1 / 2
             then (real_of_int M / 255 - real_of_int m / 255) / (2 - real_of_int M / 255 - real_of_int m / 255)
             else (real_of_int M / 255 - real_of_int m / 255) / (real_of_int M / 255 + real_of_int m / 255))\<bar>
         \<le> 5000 * eps"
proof -
  note es = eps_pos eps_small
  define mx where "mx = real_of_int M / 255"
  define mn where "mn = real_of_int m / 255"
  define d where "d = mx - mn"
  define den where "den = (if (mx + mn) / 2 > 1 / 2 then 2 - mx - mn else mx + mn)"
  define denf where "denf = (if lf > 1 / 2 then fl (fl (2 - mxf) - mnf) else fl (mxf + mnf))"
  have rM: "real_of_int m + 1 \<le> real_of_int M" "0 \<le> real_of_int m" "real_of_int M \<le> 255"
    using Mm by linarith+
  have mm: "0 \<le> mn" "mn + 1 / 255 \<le> mx" "mx \<le> 1" using rM by (simp_all add: mx_def mn_def)
  have d: "1 / 255 \<le> d" "d \<le> 1" using mm by (simp_all add: d_def)
  have den_lo: "1 / 255 \<le> den" using mm by (auto simp: den_def)
  have d_den: "\<bar>d\<bar> \<le> den" using mm by (auto simp: den_def d_def abs_le_iff)
  have den_up: "den \<le> 2" using mm by (auto simp: den_def)
  have mid: "2 - mx - mn = mx + mn" if "(mx + mn) / 2 = 1 / 2" using that by simp
  have int_gap: "(mx + mn) / 2 > 1 / 2 \<Longrightarrow> (mx + mn) / 2 \<ge> 256 / 510"
    "(mx + mn) / 2 < 1 / 2 \<Longrightarrow> (mx + mn) / 2 \<le> 254 / 510"
  proof -
    have e: "(mx + mn) / 2 = real_of_int (M + m) / 510" by (simp add: mx_def mn_def)
    { assume "(mx + mn) / 2 > 1 / 2"
      then have "real_of_int (M + m) > 255" unfolding e by simp
      then have "M + m > 255" by linarith
      then have "M + m \<ge> 256" by simp
      then have "real_of_int (M + m) \<ge> 256" by linarith
      then show "(mx + mn) / 2 \<ge> 256 / 510" unfolding e by simp }
    { assume "(mx + mn) / 2 < 1 / 2"
      then have "real_of_int (M + m) < 255" unfolding e by simp
      then have "M + m < 255" by linarith
      then have "M + m \<le> 254" by simp
      then have "real_of_int (M + m) \<le> 254" by linarith
      then show "(mx + mn) / 2 \<le> 254 / 510" unfolding e by simp }
  qed
  have lf': "\<bar>lf - (mx + mn) / 2\<bar> \<le> 3 * eps" using lf by (simp add: mx_def mn_def)
  have mxf': "\<bar>mxf - mx\<bar> \<le> eps" and mnf': "\<bar>mnf - mn\<bar> \<le> eps"
    using mxf mnf by (simp_all add: mx_def mn_def)
  have denf: "\<bar>denf - den\<bar> \<le> 4 * eps"
  proof (cases "lf > 1 / 2")
    case True
    have a: "\<bar>fl (2 - mxf) - (2 - mxf)\<bar> \<le> eps" using mxf' mm es by (intro fl_near) (auto simp: abs_le_iff)
    have b: "\<bar>fl (fl (2 - mxf) - mnf) - (fl (2 - mxf) - mnf)\<bar> \<le> eps"
      using a mxf' mnf' mm es by (intro fl_near) (auto simp: abs_le_iff)
    have c: "\<bar>fl (fl (2 - mxf) - mnf) - (2 - mx - mn)\<bar> \<le> 4 * eps" using a b mxf' mnf' by linarith
    have "(mx + mn) / 2 \<ge> 1 / 2"
    proof (rule ccontr)
      assume "\<not> (mx + mn) / 2 \<ge> 1 / 2"
      then have "(mx + mn) / 2 < 1 / 2" by simp
      from int_gap(2)[OF this] lf' True es show False unfolding abs_le_iff by linarith
    qed
    then have "den = 2 - mx - mn" using mid by (auto simp: den_def)
    then show ?thesis using True c by (simp add: denf_def)
  next
    case False
    have a: "\<bar>fl (mxf + mnf) - (mxf + mnf)\<bar> \<le> eps" using mxf' mnf' mm es by (intro fl_near) (auto simp: abs_le_iff)
    have c: "\<bar>fl (mxf + mnf) - (mx + mn)\<bar> \<le> 4 * eps" using a mxf' mnf' es by linarith
    have "\<not> (mx + mn) / 2 > 1 / 2"
    proof
      assume "(mx + mn) / 2 > 1 / 2"
      from int_gap(1)[OF this] lf' False es show False unfolding abs_le_iff by linarith
    qed
    then have "den = mx + mn" by (simp add: den_def)
    then show ?thesis using False c by (simp add: denf_def)
  qed
  have df': "\<bar>df - d\<bar> \<le> 3 * eps" using df by (simp add: d_def mx_def mn_def)
  have q: "\<bar>df / denf - d / den\<bar> \<le> 2 * (3 * eps + 4 * eps) / (1 / 255)"
    using den_lo es by (intro div_near[OF df' denf d_den]) auto
  then have q': "\<bar>df / denf - d / den\<bar> \<le> 3570 * eps" by simp
  define S where "S = d / den"
  define sq where "sq = df / denf"
  have "\<bar>S\<bar> \<le> 1" unfolding S_def using d_den den_lo by (simp add: abs_le_iff field_simps)
  moreover have q'': "\<bar>sq - S\<bar> \<le> 3570 * eps" using q' by (simp add: S_def sq_def)
  ultimately have "\<bar>fl sq - sq\<bar> \<le> eps"
    using es by (intro fl_near) linarith+
  then have "\<bar>fl sq - S\<bar> \<le> 5000 * eps" using q'' es by linarith
  then have main: "\<bar>fl (df / denf) - d / den\<bar> \<le> 5000 * eps" by (simp add: S_def sq_def)
  have e1: "fl (df / denf) =
      (if lf > 1 / 2 then fl (df / fl (fl (2 - mxf) - mnf)) else fl (df / fl (mxf + mnf)))"
    by (simp add: denf_def)
  have e2: "d / den = (if (real_of_int M / 255 + real_of_int m / 255) / 2 > 1 / 2
             then (real_of_int M / 255 - real_of_int m / 255) / (2 - real_of_int M / 255 - real_of_int m / 255)
             else (real_of_int M / 255 - real_of_int m / 255) / (real_of_int M / 255 + real_of_int m / 255))"
    by (simp add: den_def d_def mx_def mn_def)
  from main[unfolded e1 e2] show ?thesis .
qed

lemma hue_near:
  fixes xf yf x y d df c :: real
  assumes xf: "\<bar>xf - x\<bar> \<le> eps" and yf: "\<bar>yf - y\<bar> \<le> eps"
    and x: "0 \<le> x" "x \<le> 1" and y: "0 \<le> y" "y \<le> 1"
    and xy: "\<bar>x - y\<bar> \<le> d" and d: "1 / 255 \<le> d" and df: "\<bar>df - d\<bar> \<le> 3 * eps"
    and c: "0 \<le> c" "c \<le> 6"
  shows "\<bar>fl (fl (fl (fl (xf - yf) / df) + c) / 6) - ((x - y) / d + c) / 6\<bar> \<le> 5000 * eps"
proof -
  note es = eps_pos eps_small
  define n where "n = fl (xf - yf)"
  define kq where "kq = n / df"
  define k where "k = fl kq"
  define u where "u = fl (k + c)"
  have "\<bar>n - (xf - yf)\<bar> \<le> eps" unfolding n_def using xf yf x y es by (intro fl_near) (auto simp: abs_le_iff)
  then have n: "\<bar>n - (x - y)\<bar> \<le> 3 * eps" using xf yf by linarith
  define kx where "kx = (x - y) / d"
  have q: "\<bar>n / df - (x - y) / d\<bar> \<le> 2 * (3 * eps + 3 * eps) / (1 / 255)"
    using d es by (intro div_near[OF n df xy]) auto
  then have q': "\<bar>kq - kx\<bar> \<le> 3060 * eps" by (simp add: kq_def kx_def)
  have r: "\<bar>kx\<bar> \<le> 1" unfolding kx_def using xy d by (simp add: abs_le_iff field_simps)
  have "\<bar>fl kq - kq\<bar> \<le> eps"
    using q' r es by (intro fl_near) linarith+
  then have k: "\<bar>k - kx\<bar> \<le> 3061 * eps" using q' unfolding k_def by linarith
  have "\<bar>u - (k + c)\<bar> \<le> eps" unfolding u_def
    using k r c es by (intro fl_near) linarith+
  then have u: "\<bar>u - (kx + c)\<bar> \<le> 3062 * eps" using k by linarith
  have "\<bar>fl (u / 6) - u / 6\<bar> \<le> eps"
    using u r c es by (intro fl_near) linarith+
  then have "\<bar>fl (u / 6) - (kx + c) / 6\<bar> \<le> 5000 * eps"
    using u es unfolding add_divide_distrib by linarith
  then show ?thesis by (simp add: u_def k_def kq_def n_def kx_def)
qed


text \<open>
  \<open>h\<close>, \<open>s\<close> and \<open>l\<close> of \<open>rgbToHsl\<close> before they are scaled and rounded are within
  \<open>5000\<close> rounding units of the exact ones.
\<close>

lemma rgbToHsl_near:
  fixes r0 g0 b0 :: int
  assumes r0: "0 \<le> r0" "r0 \<le> 255" and g0: "0 \<le> g0" "g0 \<le> 255" and b0: "0 \<le> b0" "b0 \<le> 255"
  obtains hf sf lf where
    "rgbToHsl (of_int r0) (of_int g0) (of_int b0) =
       \<lparr>hsl_h = round (fl (hf * 360)), hsl_s = round (fl (sf * 100)), hsl_l = round (fl (lf * 100))\<rparr>"
    "\<bar>hf - hueOf (of_int r0 / 255) (of_int g0 / 255) (of_int b0 / 255)\<bar> \<le> 5000 * eps"
    "\<bar>sf - saturationOf (of_int r0 / 255) (of_int g0 / 255) (of_int b0 / 255)\<bar> \<le> 5000 * eps"
    "\<bar>lf - lightnessOf (of_int r0 / 255) (of_int g0 / 255) (of_int b0 / 255)\<bar> \<le> 5000 * eps"
proof -
  note es = eps_pos eps_small
  define r where "r = real_of_int r0 / 255"
  define g where "g = real_of_int g0 / 255"
  define b where "b = real_of_int b0 / 255"
  define M where "M = max r0 (max g0 b0)"
  define m where "m = min r0 (min g0 b0)"
  define mx where "mx = real_of_int M / 255"
  define mn where "mn = real_of_int m / 255"
  have Mm: "0 \<le> m" "m \<le> M" "M \<le> 255" using r0 g0 b0 by (auto simp: M_def m_def)
  have mm: "0 \<le> mn" "mn \<le> mx" "mx \<le> 1" using Mm by (simp_all add: mx_def mn_def)
  have rgb: "0 \<le> r" "r \<le> 1" "0 \<le> g" "g \<le> 1" "0 \<le> b" "b \<le> 1"
    using r0 g0 b0 by (simp_all add: r_def g_def b_def)
  have xmx: "max r (max g b) = mx" by (simp add: r_def g_def b_def mx_def M_def max_def)
  have xmn: "min r (min g b) = mn" by (simp add: r_def g_def b_def mn_def m_def min_def)
  have in_rng: "mn \<le> r" "r \<le> mx" "mn \<le> g" "g \<le> mx" "mn \<le> b" "b \<le> mx"
    unfolding xmx[symmetric] xmn[symmetric] by auto
  have mgb: "0 \<le> max g0 b0" "max g0 b0 \<le> 255" "0 \<le> min g0 b0" "min g0 b0 \<le> 255"
    using g0 b0 by auto
  have fmx: "max (unitChannel r0) (max (unitChannel g0) (unitChannel b0)) = unitChannel M"
    unfolding M_def unitChannel_max(1)[OF g0 b0] by (rule unitChannel_max(1)[OF r0 mgb(1,2)])
  have fmn: "min (unitChannel r0) (min (unitChannel g0) (unitChannel b0)) = unitChannel m"
    unfolding m_def unitChannel_max(2)[OF g0 b0] by (rule unitChannel_max(2)[OF r0 mgb(3,4)])
  have M0: "0 \<le> M" and m255: "m \<le> 255" using Mm by auto
  have nM: "\<bar>unitChannel M - mx\<bar> \<le> eps" unfolding mx_def by (rule unitChannel_near[OF M0 Mm(3)])
  have nm: "\<bar>unitChannel m - mn\<bar> \<le> eps" unfolding mn_def by (rule unitChannel_near[OF Mm(1) m255])
  have nr: "\<bar>unitChannel r0 - r\<bar> \<le> eps" unfolding r_def by (rule unitChannel_near[OF r0])
  have ng: "\<bar>unitChannel g0 - g\<bar> \<le> eps" unfolding g_def by (rule unitChannel_near[OF g0])
  have nb: "\<bar>unitChannel b0 - b\<bar> \<le> eps" unfolding b_def by (rule unitChannel_near[OF b0])
  define lf where "lf = fl (fl (unitChannel M + unitChannel m) / 2)"
  have lf: "\<bar>lf - (mx + mn) / 2\<bar> \<le> 3 * eps"
    unfolding lf_def by (rule lightness_near[OF nM nm mm])
  have L: "lightnessOf r g b = (mx + mn) / 2" by (simp add: lightnessOf_def xmx xmn)
  have lfL: "\<bar>lf - lightnessOf r g b\<bar> \<le> 5000 * eps" unfolding L using lf es by linarith
  have eqM: "(unitChannel M = unitChannel m) = (M = m)"
    by (rule unitChannel_eq_iff[OF M0 Mm(3) Mm(1) m255])
  have xeq: "(mx = mn) = (M = m)" by (simp add: mx_def mn_def)
  show ?thesis
  proof (cases "M = m")
    case True
    have eq: "rgbToHsl (of_int r0) (of_int g0) (of_int b0) =
        \<lparr>hsl_h = round (fl (0 * 360)), hsl_s = round (fl (0 * 100)), hsl_l = round (fl (lf * 100))\<rparr>"
      unfolding rgbToHsl_def Let_def unitChannel_def[symmetric] fmx fmn lf_def
      using True by simp
    have "hueOf r g b = 0" "saturationOf r g b = 0"
      using True by (simp_all add: hueOf_def saturationOf_def Let_def xmx xmn xeq)
    then show ?thesis
      using lfL es by (intro that[OF eq]) (simp_all add: r_def g_def b_def)
  next
    case False
    then have lt: "m < M" using Mm by simp
    have ne: "unitChannel M \<noteq> unitChannel m" using False eqM by simp
    define d where "d = mx - mn"
    have rM: "real_of_int m + 1 \<le> real_of_int M" using lt by linarith
    have d: "1 / 255 \<le> d" using rM by (simp add: d_def mx_def mn_def)
    define df where "df = fl (unitChannel M - unitChannel m)"
    have "\<bar>df - (unitChannel M - unitChannel m)\<bar> \<le> eps"
      unfolding df_def using nM nm mm es by (intro fl_near) linarith+
    then have df: "\<bar>df - d\<bar> \<le> 3 * eps" using nM nm unfolding d_def by linarith
    define sf where "sf = (if lf > 1 / 2 then fl (df / fl (fl (2 - unitChannel M) - unitChannel m))
        else fl (df / fl (unitChannel M + unitChannel m)))"
    have S: "saturationOf r g b =
        (if (real_of_int M / 255 + real_of_int m / 255) / 2 > 1 / 2
         then (real_of_int M / 255 - real_of_int m / 255) / (2 - real_of_int M / 255 - real_of_int m / 255)
         else (real_of_int M / 255 - real_of_int m / 255) / (real_of_int M / 255 + real_of_int m / 255))"
      unfolding saturationOf_def Let_def xmx xmn using False xeq by (simp add: mx_def mn_def)
    have sfS: "\<bar>sf - saturationOf r g b\<bar> \<le> 5000 * eps"
      unfolding S sf_def
      by (rule saturation_near[OF Mm(1) lt Mm(3) nM[unfolded mx_def] nm[unfolded mn_def]
            lf[unfolded mx_def mn_def] df[unfolded d_def mx_def mn_def]])
    define hf where "hf =
        (if unitChannel M = unitChannel r0 then
           fl (fl (fl (fl (unitChannel g0 - unitChannel b0) / df)
                   + (if unitChannel g0 < unitChannel b0 then 6 else 0)) / 6)
         else if unitChannel M = unitChannel g0 then
           fl (fl (fl (fl (unitChannel b0 - unitChannel r0) / df) + 2) / 6)
         else if unitChannel M = unitChannel b0 then
           fl (fl (fl (fl (unitChannel r0 - unitChannel g0) / df) + 4) / 6)
         else 0)"
    have eq: "rgbToHsl (of_int r0) (of_int g0) (of_int b0) =
        \<lparr>hsl_h = round (fl (hf * 360)), hsl_s = round (fl (sf * 100)), hsl_l = round (fl (lf * 100))\<rparr>"
      unfolding rgbToHsl_def Let_def unitChannel_def[symmetric] fmx fmn lf_def[symmetric]
        df_def[symmetric] sf_def[symmetric] hf_def[symmetric]
      using ne by simp
    have er: "(unitChannel M = unitChannel r0) = (mx = r)"
      using unitChannel_eq_iff[OF M0 Mm(3) r0] by (simp add: mx_def r_def)
    have eg: "(unitChannel M = unitChannel g0) = (mx = g)"
      using unitChannel_eq_iff[OF M0 Mm(3) g0] by (simp add: mx_def g_def)
    have eb: "(unitChannel M = unitChannel b0) = (mx = b)"
      using unitChannel_eq_iff[OF M0 Mm(3) b0] by (simp add: mx_def b_def)
    have lgb: "(unitChannel g0 < unitChannel b0) = (g < b)"
      using unitChannel_less_iff[OF g0 b0] by (simp add: g_def b_def)
    have diff: "\<bar>x - y\<bar> \<le> d" if "mn \<le> x" "x \<le> mx" "mn \<le> y" "y \<le> mx" for x y
      using that unfolding d_def by linarith
    have "mx = r \<or> mx = g \<or> mx = b" unfolding xmx[symmetric] by (auto simp: max_def)
    then consider (R) "mx = r" | (G) "mx \<noteq> r" "mx = g" | (B) "mx \<noteq> r" "mx \<noteq> g" "mx = b"
      by blast
    then have hfH: "\<bar>hf - hueOf r g b\<bar> \<le> 5000 * eps"
    proof cases
      case R
      have h1: "hf = fl (fl (fl (fl (unitChannel g0 - unitChannel b0) / df)
                   + (if g < b then 6 else 0)) / 6)"
        using R by (simp add: hf_def er lgb)
      have h2: "hueOf r g b = ((g - b) / d + (if g < b then 6 else 0)) / 6"
        unfolding hueOf_def Let_def xmx xmn d_def using R False xeq by simp
      show ?thesis unfolding h1 h2
        by (rule hue_near[OF ng nb rgb(3,4) rgb(5,6) diff[OF in_rng(3,4,5,6)] d df]) simp_all
    next
      case G
      have h1: "hf = fl (fl (fl (fl (unitChannel b0 - unitChannel r0) / df) + 2) / 6)"
        using G by (simp add: hf_def er eg)
      have h2: "hueOf r g b = ((b - r) / d + 2) / 6"
        unfolding hueOf_def Let_def xmx xmn d_def using G False xeq by simp
      show ?thesis unfolding h1 h2
        by (rule hue_near[OF nb nr rgb(5,6) rgb(1,2) diff[OF in_rng(5,6,1,2)] d df]) simp_all
    next
      case B
      have h1: "hf = fl (fl (fl (fl (unitChannel r0 - unitChannel g0) / df) + 4) / 6)"
        using B by (simp add: hf_def er eg eb)
      have h2: "hueOf r g b = ((r - g) / d + 4) / 6"
        unfolding hueOf_def Let_def xmx xmn d_def using B False xeq by simp
      show ?thesis unfolding h1 h2
        by (rule hue_near[OF nr ng rgb(1,2) rgb(3,4) diff[OF in_rng(1,2,3,4)] d df]) simp_all
    qed
    show ?thesis
      using hfH sfS lfL by (intro that[OF eq]) (simp_all add: r_def g_def b_def)
  qed
qed

section \<open>The exact conversions are inverse\<close>

lemma shape_at:
  assumes "- 1 \<le> k" "k \<le> 1"
  shows "hueShape (k / 6) = max 0 k"
    and "hueShape ((k + 2) / 6) = 1"
    and "hueShape ((k + 4) / 6) = max 0 (- k)"
    and "hueShape ((k + 6) / 6) = max 0 k"
    and "hueShape ((k + 8) / 6) = 1"
    and "hueShape ((k - 2) / 6) = max 0 (- k)"
  using assms by (auto simp: hueShape_def rawShape_def Let_def max_def field_simps)

lemma sat_chroma:
  fixes mx mn :: real
  assumes "0 \<le> mn" "mn < mx" "mx \<le> 1"
  shows "(if (mx + mn) / 2 > 1 / 2 then (mx - mn) / (2 - mx - mn) else (mx - mn) / (mx + mn))
           * min ((mx + mn) / 2) (1 - (mx + mn) / 2) = (mx - mn) / 2"
  using assms by (auto simp: min_def field_simps)

lemma affine_finish:
  fixes d k mn x :: real
  assumes "d * k = x"
  shows "mn + d * 1 = mn + d" "mn + d * 0 = mn" "mn + d * k = mn + x" "mn + d * (- k) = mn - x"
  using assms by simp_all

lemma exact_channels:
  assumes r: "0 \<le> r" "r \<le> 1" and g: "0 \<le> g" "g \<le> 1" and b: "0 \<le> b" "b \<le> 1"
  shows "channelOf (hueOf r g b + 1 / 3) (saturationOf r g b) (lightnessOf r g b) = r"
    and "channelOf (hueOf r g b) (saturationOf r g b) (lightnessOf r g b) = g"
    and "channelOf (hueOf r g b - 1 / 3) (saturationOf r g b) (lightnessOf r g b) = b"
proof -
  define mx where "mx = max r (max g b)"
  define mn where "mn = min r (min g b)"
  define d where "d = mx - mn"
  have mm: "0 \<le> mn" "mn \<le> mx" "mx \<le> 1" using r g b by (auto simp: mx_def mn_def)
  have L: "lightnessOf r g b = (mx + mn) / 2" by (simp add: lightnessOf_def mx_def mn_def)
  show "channelOf (hueOf r g b + 1 / 3) (saturationOf r g b) (lightnessOf r g b) = r"
    and "channelOf (hueOf r g b) (saturationOf r g b) (lightnessOf r g b) = g"
    and "channelOf (hueOf r g b - 1 / 3) (saturationOf r g b) (lightnessOf r g b) = b"
  proof (atomize (full), cases "mx = mn")
    case True
    then have "r = mx" "g = mx" "b = mx" by (auto simp: mx_def mn_def max_def min_def split: if_splits)
    moreover have "saturationOf r g b = 0" using True by (simp add: saturationOf_def Let_def mx_def mn_def)
    ultimately show "channelOf (hueOf r g b + 1 / 3) (saturationOf r g b) (lightnessOf r g b) = r \<and>
      channelOf (hueOf r g b) (saturationOf r g b) (lightnessOf r g b) = g \<and>
      channelOf (hueOf r g b - 1 / 3) (saturationOf r g b) (lightnessOf r g b) = b"
      using True by (simp add: channelOf_def lightnessOf_def)
  next
    case False
    then have d: "0 < d" using mm by (simp add: d_def)
    have S: "saturationOf r g b * min ((mx + mn) / 2) (1 - (mx + mn) / 2) = d / 2"
      using sat_chroma[of mn mx] mm False
      by (simp add: saturationOf_def Let_def mx_def[symmetric] mn_def[symmetric] d_def)
    have ch: "channelOf t (saturationOf r g b) (lightnessOf r g b) = mn + d * hueShape t" for t
      unfolding channelOf_def L S by (simp add: d_def field_simps)
    have "mx = r \<or> mx = g \<or> mx = b" by (auto simp: mx_def max_def)
    then consider (R) "mx = r" | (G) "mx \<noteq> r" "mx = g" | (B) "mx \<noteq> r" "mx \<noteq> g" "mx = b"
      by blast
    then show "channelOf (hueOf r g b + 1 / 3) (saturationOf r g b) (lightnessOf r g b) = r \<and>
      channelOf (hueOf r g b) (saturationOf r g b) (lightnessOf r g b) = g \<and>
      channelOf (hueOf r g b - 1 / 3) (saturationOf r g b) (lightnessOf r g b) = b"
    proof cases
      case R
      define k where "k = (g - b) / d"
      have dk: "d * k = g - b" using d by (simp add: k_def)
      have dr: "d = mx - mn" by (simp add: d_def)
      have gb: "g \<le> r" "b \<le> r" using R by (auto simp: mx_def)
      have mn': "mn = min g b" using gb by (auto simp: mn_def)
      have k: "- 1 \<le> k" "k \<le> 1"
        using d gb by (auto simp: k_def d_def R mn' field_simps)
      have kneg: "k < 0 \<longleftrightarrow> g < b" using d by (simp add: k_def divide_less_0_iff)
      have "hueOf r g b = (k + (if g < b then 6 else 0)) / 6"
        unfolding hueOf_def Let_def mx_def[symmetric] mn_def[symmetric] d_def[symmetric] k_def
        using False R by simp
      then have H: "hueOf r g b = (if k < 0 then (k + 6) / 6 else k / 6)"
        using kneg by simp
      show ?thesis
      proof (cases "k < 0")
        case True
        then have "g < b" using dk d by (metis diff_less_0_iff_less mult_less_0_iff not_less_iff_gr_or_eq)
        then have mn'': "mn = g" by (simp add: mn')
        have v: "max 0 k = 0" "max 0 (- k) = - k" using True by auto
        have H': "hueOf r g b = (k + 6) / 6" using H True by simp
        have e: "(k + 6) / 6 + 1 / 3 = (k + 8) / 6" "(k + 6) / 6 - 1 / 3 = (k + 4) / 6" by (simp_all add: field_simps)
        have s1: "hueShape (hueOf r g b + 1 / 3) = 1"
          unfolding H' e by (rule shape_at[OF k])
        have s2: "hueShape (hueOf r g b) = max 0 k"
          unfolding H' by (rule shape_at[OF k])
        have s3: "hueShape (hueOf r g b - 1 / 3) = max 0 (- k)"
          unfolding H' e by (rule shape_at[OF k])
        show ?thesis
          unfolding ch s1 s2 s3 v affine_finish[OF dk] using dr mn'' R by simp
      next
        case False
        then have "b \<le> g" using dk d by (metis diff_ge_0_iff_ge not_less zero_le_mult_iff less_le)
        then have mn'': "mn = b" by (simp add: mn')
        have v: "max 0 k = k" "max 0 (- k) = 0" using False by auto
        have H': "hueOf r g b = k / 6" using H False by simp
        have e: "k / 6 + 1 / 3 = (k + 2) / 6" "k / 6 - 1 / 3 = (k - 2) / 6" by (simp_all add: field_simps)
        have s1: "hueShape (hueOf r g b + 1 / 3) = 1"
          unfolding H' e by (rule shape_at[OF k])
        have s2: "hueShape (hueOf r g b) = max 0 k"
          unfolding H' by (rule shape_at[OF k])
        have s3: "hueShape (hueOf r g b - 1 / 3) = max 0 (- k)"
          unfolding H' e by (rule shape_at[OF k])
        show ?thesis
          unfolding ch s1 s2 s3 v affine_finish[OF dk] using dr mn'' R by simp
      qed
    next
      case G
      define k where "k = (b - r) / d"
      have dk: "d * k = b - r" using d by (simp add: k_def)
      have dr: "d = mx - mn" by (simp add: d_def)
      have gb: "r < g" "b \<le> g" using G by (auto simp: mx_def max_def split: if_splits)
      have mn': "mn = min r b" using gb by (auto simp: mn_def)
      have k: "- 1 \<le> k" "k \<le> 1"
        using d gb by (auto simp: k_def d_def G mn' field_simps)
      have "hueOf r g b = (k + 2) / 6"
        unfolding hueOf_def Let_def mx_def[symmetric] mn_def[symmetric] d_def[symmetric] k_def
        using False G by simp
      then have H: "hueOf r g b = (if k < 0 then (k + 2) / 6 else (k + 2) / 6)" by simp
      show ?thesis
      proof (cases "k < 0")
        case True
        then have "b < r" using dk d by (metis diff_less_0_iff_less mult_less_0_iff not_less_iff_gr_or_eq)
        then have mn'': "mn = b" by (simp add: mn')
        have v: "max 0 k = 0" "max 0 (- k) = - k" using True by auto
        have H': "hueOf r g b = (k + 2) / 6" using H True by simp
        have e: "(k + 2) / 6 + 1 / 3 = (k + 4) / 6" "(k + 2) / 6 - 1 / 3 = k / 6" by (simp_all add: field_simps)
        have s1: "hueShape (hueOf r g b + 1 / 3) = max 0 (- k)"
          unfolding H' e by (rule shape_at[OF k])
        have s2: "hueShape (hueOf r g b) = 1"
          unfolding H' by (rule shape_at[OF k])
        have s3: "hueShape (hueOf r g b - 1 / 3) = max 0 k"
          unfolding H' e by (rule shape_at[OF k])
        show ?thesis
          unfolding ch s1 s2 s3 v affine_finish[OF dk] using dr mn'' G(2) by simp
      next
        case False
        then have "r \<le> b" using dk d by (metis diff_ge_0_iff_ge not_less zero_le_mult_iff less_le)
        then have mn'': "mn = r" by (simp add: mn')
        have v: "max 0 k = k" "max 0 (- k) = 0" using False by auto
        have H': "hueOf r g b = (k + 2) / 6" using H False by simp
        have e: "(k + 2) / 6 + 1 / 3 = (k + 4) / 6" "(k + 2) / 6 - 1 / 3 = k / 6" by (simp_all add: field_simps)
        have s1: "hueShape (hueOf r g b + 1 / 3) = max 0 (- k)"
          unfolding H' e by (rule shape_at[OF k])
        have s2: "hueShape (hueOf r g b) = 1"
          unfolding H' by (rule shape_at[OF k])
        have s3: "hueShape (hueOf r g b - 1 / 3) = max 0 k"
          unfolding H' e by (rule shape_at[OF k])
        show ?thesis
          unfolding ch s1 s2 s3 v affine_finish[OF dk] using dr mn'' G(2) by simp
      qed
    next
      case B
      define k where "k = (r - g) / d"
      have dk: "d * k = r - g" using d by (simp add: k_def)
      have dr: "d = mx - mn" by (simp add: d_def)
      have gb: "r < b" "g < b" using B by (auto simp: mx_def max_def split: if_splits)
      have mn': "mn = min r g" using gb by (auto simp: mn_def)
      have k: "- 1 \<le> k" "k \<le> 1"
        using d gb by (auto simp: k_def d_def B mn' field_simps)
      have "hueOf r g b = (k + 4) / 6"
        unfolding hueOf_def Let_def mx_def[symmetric] mn_def[symmetric] d_def[symmetric] k_def
        using False B by simp
      then have H: "hueOf r g b = (if k < 0 then (k + 4) / 6 else (k + 4) / 6)" by simp
      show ?thesis
      proof (cases "k < 0")
        case True
        then have "r < g" using dk d by (metis diff_less_0_iff_less mult_less_0_iff not_less_iff_gr_or_eq)
        then have mn'': "mn = r" by (simp add: mn')
        have v: "max 0 k = 0" "max 0 (- k) = - k" using True by auto
        have H': "hueOf r g b = (k + 4) / 6" using H True by simp
        have e: "(k + 4) / 6 + 1 / 3 = (k + 6) / 6" "(k + 4) / 6 - 1 / 3 = (k + 2) / 6" by (simp_all add: field_simps)
        have s1: "hueShape (hueOf r g b + 1 / 3) = max 0 k"
          unfolding H' e by (rule shape_at[OF k])
        have s2: "hueShape (hueOf r g b) = max 0 (- k)"
          unfolding H' by (rule shape_at[OF k])
        have s3: "hueShape (hueOf r g b - 1 / 3) = 1"
          unfolding H' e by (rule shape_at[OF k])
        show ?thesis
          unfolding ch s1 s2 s3 v affine_finish[OF dk] using dr mn'' B(3) by simp
      next
        case False
        then have "g \<le> r" using dk d by (metis diff_ge_0_iff_ge not_less zero_le_mult_iff less_le)
        then have mn'': "mn = g" by (simp add: mn')
        have v: "max 0 k = k" "max 0 (- k) = 0" using False by auto
        have H': "hueOf r g b = (k + 4) / 6" using H False by simp
        have e: "(k + 4) / 6 + 1 / 3 = (k + 6) / 6" "(k + 4) / 6 - 1 / 3 = (k + 2) / 6" by (simp_all add: field_simps)
        have s1: "hueShape (hueOf r g b + 1 / 3) = max 0 k"
          unfolding H' e by (rule shape_at[OF k])
        have s2: "hueShape (hueOf r g b) = max 0 (- k)"
          unfolding H' by (rule shape_at[OF k])
        have s3: "hueShape (hueOf r g b - 1 / 3) = 1"
          unfolding H' e by (rule shape_at[OF k])
        show ?thesis
          unfolding ch s1 s2 s3 v affine_finish[OF dk] using dr mn'' B(3) by simp
      qed
    qed
  qed
qed

lemma saturationOf_range:
  assumes r: "0 \<le> r" "r \<le> 1" and g: "0 \<le> g" "g \<le> 1" and b: "0 \<le> b" "b \<le> 1"
  shows "0 \<le> saturationOf r g b \<and> saturationOf r g b \<le> 1"
proof -
  define mx where "mx = max r (max g b)"
  define mn where "mn = min r (min g b)"
  have mm: "0 \<le> mn" "mn \<le> mx" "mx \<le> 1" using r g b by (auto simp: mx_def mn_def)
  show ?thesis
    unfolding saturationOf_def Let_def mx_def[symmetric] mn_def[symmetric]
    using mm by (auto simp: field_simps)
qed

lemma lightnessOf_range:
  assumes r: "0 \<le> r" "r \<le> 1" and g: "0 \<le> g" "g \<le> 1" and b: "0 \<le> b" "b \<le> 1"
  shows "0 \<le> lightnessOf r g b \<and> lightnessOf r g b \<le> 1"
  using assms by (auto simp: lightnessOf_def max_def min_def)

lemma hueOf_range:
  assumes r: "0 \<le> r" "r \<le> 1" and g: "0 \<le> g" "g \<le> 1" and b: "0 \<le> b" "b \<le> 1"
  shows "0 \<le> hueOf r g b \<and> hueOf r g b \<le> 1"
proof -
  define mx where "mx = max r (max g b)"
  define mn where "mn = min r (min g b)"
  define d where "d = mx - mn"
  have in_rng: "mn \<le> r" "r \<le> mx" "mn \<le> g" "g \<le> mx" "mn \<le> b" "b \<le> mx"
    by (auto simp: mx_def mn_def)
  show ?thesis
  proof (cases "mx = mn")
    case True
    then show ?thesis by (simp add: hueOf_def Let_def mx_def mn_def)
  next
    case False
    then have d: "0 < d" using in_rng by (simp add: d_def)
    have q: "- 1 \<le> (x - y) / d \<and> (x - y) / d \<le> 1"
      if "mn \<le> x" "x \<le> mx" "mn \<le> y" "y \<le> mx" for x y
      using d that by (simp add: field_simps d_def)
    have sgn: "((g - b) / d < 0) = (g < b)" using d by (simp add: divide_less_0_iff)
    have qr: "- 1 \<le> (g - b) / d \<and> (g - b) / d \<le> 1" using q in_rng by blast
    have qg: "- 1 \<le> (b - r) / d \<and> (b - r) / d \<le> 1" using q in_rng by blast
    have qb: "- 1 \<le> (r - g) / d \<and> (r - g) / d \<le> 1" using q in_rng by blast
    show ?thesis
      unfolding hueOf_def Let_def mx_def[symmetric] mn_def[symmetric] d_def[symmetric]
      using False qr qg qb sgn by auto
  qed
qed

lemma channel_error:
  assumes l: "\<bar>l' - L\<bar> \<le> dl" and s: "\<bar>s' - S\<bar> \<le> ds" and t: "\<bar>t' - t\<bar> \<le> dt"
    and S: "0 \<le> S" "S \<le> 1" and L: "0 \<le> L" "L \<le> 1" and l': "0 \<le> l'" "l' \<le> 1"
    and tr: "- 1 \<le> t" "t \<le> 2" "- 1 \<le> t'" "t' \<le> 2"
  shows "\<bar>channelOf t' s' l' - channelOf t S L\<bar> \<le> 2 * dl + ds / 2 + 6 * dt"
proof -
  define w where "w = 2 * hueShape t - 1"
  define w' where "w' = 2 * hueShape t' - 1"
  define m where "m = min L (1 - L)"
  define m' where "m' = min l' (1 - l')"
  have "0 \<le> hueShape t' \<and> hueShape t' \<le> 1"
    using hueShape_range tr by simp
  then have w'1: "\<bar>w'\<bar> \<le> 1" by (simp add: w'_def abs_le_iff)
  have lip: "\<bar>hueShape t' - hueShape t\<bar> \<le> 6 * \<bar>t' - t\<bar>"
    using tr by (intro hueShape_lipschitz) auto
  have "6 * \<bar>t' - t\<bar> \<le> 6 * dt" using t by simp
  with lip have sh: "\<bar>hueShape t' - hueShape t\<bar> \<le> 6 * dt" by (rule order_trans)
  have "w' - w = 2 * hueShape t' - 2 * hueShape t" by (simp add: w_def w'_def)
  then have ww: "\<bar>w' - w\<bar> \<le> 12 * dt" using sh by linarith
  have mm: "\<bar>m' - m\<bar> \<le> dl" using l by (auto simp: m_def m'_def min_def abs_if split: if_splits)
  have m'1: "\<bar>m'\<bar> \<le> 1 / 2" using l' by (auto simp: m'_def min_def abs_if)
  have m1: "\<bar>m\<bar> \<le> 1 / 2" using L by (auto simp: m_def min_def abs_if)
  have S1: "\<bar>S\<bar> \<le> 1" using S by simp
  have c1: "\<bar>S * m\<bar> \<le> 1 * (1 / 2)" by (rule abs_prod_le[OF S1 m1])
  have e1: "\<bar>(s' - S) * m'\<bar> \<le> ds * (1 / 2)" by (rule abs_prod_le[OF s m'1])
  have e2: "\<bar>S * (m' - m)\<bar> \<le> 1 * dl" by (rule abs_prod_le[OF S1 mm])
  have "s' * m' - S * m = (s' - S) * m' + S * (m' - m)" by (simp add: algebra_simps)
  then have cc: "\<bar>s' * m' - S * m\<bar> \<le> ds * (1 / 2) + 1 * dl" using abs_sum2_le[OF e1 e2] by simp
  have e3: "\<bar>(s' * m' - S * m) * w'\<bar> \<le> (ds * (1 / 2) + 1 * dl) * 1" by (rule abs_prod_le[OF cc w'1])
  have e4: "\<bar>(S * m) * (w' - w)\<bar> \<le> 1 * (1 / 2) * (12 * dt)" by (rule abs_prod_le[OF c1 ww])
  have "channelOf t' s' l' - channelOf t S L
      = (l' - L) + (s' * m' - S * m) * w' + (S * m) * (w' - w)"
    by (simp add: channelOf_def w_def w'_def m_def m'_def algebra_simps)
  then show ?thesis using abs_sum3_le[OF l e3 e4] by simp
qed

lemma hueShape_hits_1:
  assumes "0 \<le> h" "h \<le> 1"
  shows "hueShape (h + 1 / 3) = 1 \<or> hueShape h = 1 \<or> hueShape (h - 1 / 3) = 1"
  using assms by (auto simp: hueShape_def rawShape_def Let_def)

lemma hueShape_hits_0:
  assumes "0 \<le> h" "h \<le> 1"
  shows "hueShape (h + 1 / 3) = 0 \<or> hueShape h = 0 \<or> hueShape (h - 1 / 3) = 0"
  using assms by (auto simp: hueShape_def rawShape_def Let_def)

section \<open>Rounding to integers\<close>

lemma round_between:
  fixes x :: real and a b :: int
  assumes "of_int a - 1 / 2 \<le> x" "x < of_int b + 1 / 2"
  shows "a \<le> round x \<and> round x \<le> b"
proof -
  have "of_int a \<le> x + 1 / 2" using assms(1) by linarith
  then have "a \<le> \<lfloor>x + 1 / 2\<rfloor>" by (simp only: le_floor_iff)
  moreover have "x + 1 / 2 < of_int b + 1" using assms(2) by linarith
  then have "\<lfloor>x + 1 / 2\<rfloor> \<le> b" by (simp only: floor_le_iff)
  ultimately show ?thesis by (simp add: round_def)
qed

lemma scaled_round_near:
  fixes v x c :: real and k :: real
  assumes v: "\<bar>v - x\<bar> \<le> 5000 * eps" and x: "0 \<le> x" "x \<le> 1" and k: "k = 100 \<or> k = 360"
  shows "\<bar>of_int (round (fl (v * k))) / k - x\<bar> \<le> 1 / (2 * k) + 5001 * eps"
    and "0 \<le> round (fl (v * k)) \<and> of_int (round (fl (v * k))) \<le> k"
proof -
  note es = eps_pos eps_small
  define y where "y = fl (v * k)"
  have kpos: "0 < k" "k \<le> 360" using k by auto
  have vk: "\<bar>v * k - x * k\<bar> \<le> 5000 * eps * k"
  proof -
    have "\<bar>(v - x) * k\<bar> \<le> 5000 * eps * k" using v kpos by (intro abs_prod_le) auto
    then show ?thesis by (simp add: algebra_simps)
  qed
  have xk: "0 \<le> x * k" "x * k \<le> k" using x kpos by (auto intro: mult_left_le_one_le)
  have e360: "5000 * eps * k \<le> 5000 * eps * 360" using kpos es by simp
  have "\<bar>y - v * k\<bar> \<le> eps" unfolding y_def using vk xk kpos e360 es by (intro fl_near) linarith+
  then have y: "\<bar>y - x * k\<bar> \<le> 5000 * eps * k + eps" using vk by linarith
  have r: "\<bar>of_int (round y) - y\<bar> \<le> 1 / 2" by (rule of_int_round_abs_le)
  have "\<bar>of_int (round y) - x * k\<bar> \<le> 1 / 2 + 5000 * eps * k + eps" using y r by linarith
  then have "\<bar>(of_int (round y) - x * k) / k\<bar> \<le> (1 / 2 + 5000 * eps * k + eps) / k"
    using kpos by (simp add: abs_divide divide_right_mono)
  moreover have "(of_int (round y) - x * k) / k = of_int (round y) / k - x"
    using kpos by (simp add: field_simps)
  moreover have "(1 / 2 + 5000 * eps * k + eps) / k \<le> 1 / (2 * k) + 5001 * eps"
    using k es by (auto simp: field_simps)
  ultimately show "\<bar>of_int (round (fl (v * k))) / k - x\<bar> \<le> 1 / (2 * k) + 5001 * eps"
    unfolding y_def by linarith
  from k show "0 \<le> round (fl (v * k)) \<and> of_int (round (fl (v * k))) \<le> k"
  proof
    assume k100: "k = 100"
    have "- (1 / 2) \<le> y" "y < 100 + 1 / 2" using y xk es unfolding k100 by linarith+
    then have "0 \<le> round y \<and> round y \<le> 100" using round_between[of 0 y 100] by simp
    then show ?thesis unfolding y_def k100 by simp
  next
    assume k360: "k = 360"
    have "- (1 / 2) \<le> y" "y < 360 + 1 / 2" using y xk es unfolding k360 by linarith+
    then have "0 \<le> round y \<and> round y \<le> 360" using round_between[of 0 y 360] by simp
    then show ?thesis unfolding y_def k360 by simp
  qed
qed

lemma channel_back:
  fixes v :: real and n :: int
  assumes v: "\<bar>v - of_int n / 255\<bar> \<le> 1 / 48 + 43000 * eps" and n: "0 \<le> n" "n \<le> 255"
  shows "\<bar>round (fl (v * 255)) - n\<bar> \<le> 5"
proof -
  note es = eps_pos eps_small
  define y where "y = fl (v * 255)"
  have rn: "0 \<le> real_of_int n" "real_of_int n \<le> 255" using n by simp_all
  have "\<bar>y - v * 255\<bar> \<le> eps" unfolding y_def using v rn es by (intro fl_near) linarith+
  moreover have "\<bar>of_int (round y) - y\<bar> \<le> 1 / 2" by (rule of_int_round_abs_le)
  ultimately have "\<bar>real_of_int (round y) - real_of_int n\<bar> < 6" using v es by linarith
  then have "\<bar>real_of_int (round y - n)\<bar> < 6" by simp
  then have "\<bar>round y - n\<bar> < 6" by linarith
  then show ?thesis unfolding y_def by simp
qed

section \<open>The lightness of a colour built from HSL\<close>

lemma extreme_near:
  fixes a b c x y z t d :: real
  assumes "\<bar>a - x\<bar> \<le> d" "\<bar>b - y\<bar> \<le> d" "\<bar>c - z\<bar> \<le> d"
    and "x \<le> t" "y \<le> t" "z \<le> t" "x = t \<or> y = t \<or> z = t"
  shows "\<bar>max a (max b c) - t\<bar> \<le> d"
  using assms by (auto simp: max_def abs_le_iff)

lemma extreme_near_min:
  fixes a b c x y z t d :: real
  assumes "\<bar>a - x\<bar> \<le> d" "\<bar>b - y\<bar> \<le> d" "\<bar>c - z\<bar> \<le> d"
    and "t \<le> x" "t \<le> y" "t \<le> z" "x = t \<or> y = t \<or> z = t"
  shows "\<bar>min a (min b c) - t\<bar> \<le> d"
  using assms by (auto simp: min_def abs_le_iff)

lemma channel_scaled:
  fixes v c :: real
  assumes v: "\<bar>v - c\<bar> \<le> 250 * eps" and c: "0 \<le> c" "c \<le> 1"
  shows "\<bar>of_int (round (fl (v * 255))) - c * 255\<bar> \<le> 1 / 2 + 63751 * eps"
    and "0 \<le> round (fl (v * 255)) \<and> round (fl (v * 255)) \<le> 255"
proof -
  note es = eps_pos eps_small
  define y where "y = fl (v * 255)"
  have "\<bar>y - v * 255\<bar> \<le> eps" unfolding y_def using v c es by (intro fl_near) linarith+
  then have y: "\<bar>y - c * 255\<bar> \<le> 63751 * eps" using v by linarith
  have r: "\<bar>of_int (round y) - y\<bar> \<le> 1 / 2" by (rule of_int_round_abs_le)
  show "\<bar>of_int (round (fl (v * 255))) - c * 255\<bar> \<le> 1 / 2 + 63751 * eps"
    unfolding y_def[symmetric] using y r by linarith
  have "- (1 / 2) \<le> y" "y < 255 + 1 / 2" using y c es by linarith+
  then have "0 \<le> round y \<and> round y \<le> 255" using round_between[of 0 y 255] by simp
  then show "0 \<le> round (fl (v * 255)) \<and> round (fl (v * 255)) \<le> 255" unfolding y_def .
qed

lemma hslToRgb_lightness:
  assumes h: "0 \<le> newH" "newH \<le> 360" and s: "0 \<le> sat" "sat \<le> 100"
    and l: "10 \<le> newL" "newL \<le> 90"
  shows "10 \<le> hsl_l (rgbToHsl (of_int (rgb_r (hslToRgb newH sat newL)))
                   (of_int (rgb_g (hslToRgb newH sat newL))) (of_int (rgb_b (hslToRgb newH sat newL))))
       \<and> hsl_l (rgbToHsl (of_int (rgb_r (hslToRgb newH sat newL)))
                   (of_int (rgb_g (hslToRgb newH sat newL))) (of_int (rgb_b (hslToRgb newH sat newL))))
         \<le> 90"
proof -
  note es = eps_pos eps_small
  define H where "H = newH / 360"
  define S where "S = sat / 100"
  define L where "L = newL / 100"
  have H: "0 \<le> H" "H \<le> 1" using h by (auto simp: H_def)
  have S: "0 \<le> S" "S \<le> 1" using s by (auto simp: S_def)
  have L: "0 \<le> L" "L \<le> 1" and L': "1 / 10 \<le> L" "L \<le> 9 / 10" using l by (auto simp: L_def)
  from l have l': "0 \<le> newL" "newL \<le> 100" by auto
  obtain vr vg vb where
    eq: "hslToRgb newH sat newL =
        \<lparr>rgb_r = round (fl (vr * 255)), rgb_g = round (fl (vg * 255)), rgb_b = round (fl (vb * 255))\<rparr>"
    and nr: "\<bar>vr - channelOf (H + 1 / 3) S L\<bar> \<le> 250 * eps"
    and ng: "\<bar>vg - channelOf H S L\<bar> \<le> 250 * eps"
    and nb: "\<bar>vb - channelOf (H - 1 / 3) S L\<bar> \<le> 250 * eps"
    unfolding H_def S_def L_def by (rule hslToRgb_channels[OF h s l'])
  define m where "m = S * min L (1 - L)"
  have m: "0 \<le> m" "m \<le> L" "m \<le> 1 - L" unfolding m_def by (rule chroma_range[OF S L])+
  define cr where "cr = channelOf (H + 1 / 3) S L"
  define cg where "cg = channelOf H S L"
  define cb where "cb = channelOf (H - 1 / 3) S L"
  have w: "0 \<le> hueShape (H + dt) \<and> hueShape (H + dt) \<le> 1" if "- 1 / 3 \<le> dt" "dt \<le> 1 / 3" for dt
    using H that by (intro hueShape_range) auto
  have ch: "channelOf t S L = L + m * (2 * hueShape t - 1)" for t
    by (simp add: channelOf_def m_def)
  have between: "L - m \<le> channelOf (H + dt) S L \<and> channelOf (H + dt) S L \<le> L + m"
    if "- 1 / 3 \<le> dt" "dt \<le> 1 / 3" for dt
  proof -
    have "\<bar>2 * hueShape (H + dt) - 1\<bar> \<le> 1" using w[OF that] by (auto simp: abs_le_iff)
    moreover have "\<bar>m\<bar> \<le> m" using m by simp
    ultimately have "\<bar>m * (2 * hueShape (H + dt) - 1)\<bar> \<le> m * 1" by (intro abs_prod_le)
    then show ?thesis unfolding ch by (simp add: abs_le_iff)
  qed
  have br: "L - m \<le> cr" "cr \<le> L + m" and bg: "L - m \<le> cg" "cg \<le> L + m"
    and bb: "L - m \<le> cb" "cb \<le> L + m"
    using between[of "1 / 3"] between[of 0] between[of "- 1 / 3"] by (simp_all add: cr_def cg_def cb_def)
  have top: "cr = L + m \<or> cg = L + m \<or> cb = L + m"
    using hueShape_hits_1[OF H] unfolding cr_def cg_def cb_def ch by auto
  have bot: "cr = L - m \<or> cg = L - m \<or> cb = L - m"
    using hueShape_hits_0[OF H] unfolding cr_def cg_def cb_def ch by auto
  have unit: "0 \<le> cr" "cr \<le> 1" "0 \<le> cg" "cg \<le> 1" "0 \<le> cb" "cb \<le> 1"
    using br bg bb m by linarith+
  define R where "R = round (fl (vr * 255))"
  define G where "G = round (fl (vg * 255))"
  define B where "B = round (fl (vb * 255))"
  have sR: "\<bar>of_int R - cr * 255\<bar> \<le> 1 / 2 + 63751 * eps" and rR: "0 \<le> R" "R \<le> 255"
    unfolding R_def using channel_scaled[OF nr[folded cr_def] unit(1,2)] by simp_all
  have sG: "\<bar>of_int G - cg * 255\<bar> \<le> 1 / 2 + 63751 * eps" and rG: "0 \<le> G" "G \<le> 255"
    unfolding G_def using channel_scaled[OF ng[folded cg_def] unit(3,4)] by simp_all
  have sB: "\<bar>of_int B - cb * 255\<bar> \<le> 1 / 2 + 63751 * eps" and rB: "0 \<le> B" "B \<le> 255"
    unfolding B_def using channel_scaled[OF nb[folded cb_def] unit(5,6)] by simp_all
  define Mx where "Mx = max R (max G B)"
  define Mn where "Mn = min R (min G B)"
  have rMx: "real_of_int Mx = max (of_int R) (max (of_int G) (of_int B))"
    by (simp add: Mx_def max_def)
  have rMn: "real_of_int Mn = min (of_int R) (min (of_int G) (of_int B))"
    by (simp add: Mn_def min_def)
  have top': "cr * 255 = (L + m) * 255 \<or> cg * 255 = (L + m) * 255 \<or> cb * 255 = (L + m) * 255"
    using top by auto
  have bot': "cr * 255 = (L - m) * 255 \<or> cg * 255 = (L - m) * 255 \<or> cb * 255 = (L - m) * 255"
    using bot by auto
  have nMx: "\<bar>real_of_int Mx - (L + m) * 255\<bar> \<le> 1 / 2 + 63751 * eps"
    unfolding rMx using br bg bb by (intro extreme_near[OF sR sG sB _ _ _ top']) auto
  have nMn: "\<bar>real_of_int Mn - (L - m) * 255\<bar> \<le> 1 / 2 + 63751 * eps"
    unfolding rMn using br bg bb by (intro extreme_near_min[OF sR sG sB _ _ _ bot']) auto
  have sum: "\<bar>real_of_int Mx + real_of_int Mn - L * 510\<bar> \<le> 1 + 127502 * eps"
    using nMx nMn by (simp add: algebra_simps)
  obtain hf sf lf where
    eq2: "rgbToHsl (of_int R) (of_int G) (of_int B) =
       \<lparr>hsl_h = round (fl (hf * 360)), hsl_s = round (fl (sf * 100)), hsl_l = round (fl (lf * 100))\<rparr>"
    and nl: "\<bar>lf - lightnessOf (of_int R / 255) (of_int G / 255) (of_int B / 255)\<bar> \<le> 5000 * eps"
    using rgbToHsl_near[OF rR rG rB] by blast
  have "max (real_of_int R / 255) (max (real_of_int G / 255) (real_of_int B / 255))
      = real_of_int Mx / 255"
    by (simp add: Mx_def max_def)
  moreover have "min (real_of_int R / 255) (min (real_of_int G / 255) (real_of_int B / 255))
      = real_of_int Mn / 255"
    by (simp add: Mn_def min_def)
  ultimately have light: "lightnessOf (of_int R / 255) (of_int G / 255) (of_int B / 255)
      = real_of_int Mx / 510 + real_of_int Mn / 510"
    by (simp add: lightnessOf_def)
  have lf: "\<bar>lf - (real_of_int Mx / 510 + real_of_int Mn / 510)\<bar> \<le> 5000 * eps"
    using nl unfolding light .
  define y where "y = fl (lf * 100)"
  have "\<bar>y - lf * 100\<bar> \<le> eps" unfolding y_def using lf sum L es by (intro fl_near) linarith+
  then have "10 - 1 / 2 \<le> y" "y < 90 + 1 / 2" using lf sum L' es by linarith+
  then have "10 \<le> round y \<and> round y \<le> 90" using round_between[of 10 y 90] by simp
  then show ?thesis unfolding eq by (simp add: R_def[symmetric] G_def[symmetric] B_def[symmetric] eq2 y_def)
qed

section \<open>Harmony rings\<close>

lemma length_generate: "length (generateComplementaryColors baseColor rings mode) = rings"
  by (simp add: generateComplementaryColors_def)

lemma nth_generate:
  "i < rings \<Longrightarrow> generateComplementaryColors baseColor rings mode ! i = ringColor baseColor rings mode i"
  by (simp add: generateComplementaryColors_def)

lemma set_generate:
  "set (generateComplementaryColors baseColor rings mode) = ringColor baseColor rings mode ` {0..<rings}"
  by (simp add: generateComplementaryColors_def)

lemma clampL_range: "10 \<le> clampL x \<and> clampL x \<le> 90"
  by (simp add: clampL_def)

lemma js_rem_360_range:
  assumes "0 \<le> a"
  shows "0 \<le> js_rem a 360 \<and> js_rem a 360 < 360"
proof -
  have nn: "\<not> a / 360 < 0" using assms by simp
  have eq: "js_rem a 360 = 360 * (a / 360 - of_int \<lfloor>a / 360\<rfloor>)"
    using nn by (simp add: js_rem_def algebra_simps)
  have "0 \<le> a / 360 - of_int \<lfloor>a / 360\<rfloor>" "a / 360 - of_int \<lfloor>a / 360\<rfloor> < 1"
    by linarith+
  then show ?thesis unfolding eq by simp
qed

text \<open>
  The hue offset of the analogous ring is at least \<open>-30\<close> in exact arithmetic; rounded, it stays
  above \<open>-31\<close> whatever the ring count.
\<close>

lemma analogous_offset:
  "- 31 \<le> fl (fl (fl (real i - fl (real rings / 2)) * 60) / real rings)"
proof (cases "rings = 0")
  case True
  then show ?thesis by simp
next
  case False
  define n where "n = real rings"
  have n: "1 \<le> n" using False by (simp add: n_def)
  define a where "a = fl (n / 2)"
  define b where "b = fl (real i - a)"
  define c where "c = fl (b * 60)"
  have "\<bar>a - n / 2\<bar> \<le> \<bar>n / 2\<bar> / 9007199254740992 + 1 / 9007199254740992"
    unfolding a_def by (rule fl_rel)
  then have a: "a \<le> 501 / 1000 * n" using n by linarith
  have "- (501 / 1000 * n) - (501 / 1000 * n + 1) / 9007199254740992 \<le> b"
    unfolding b_def using a n by (intro fl_lower) linarith+
  then have b: "- (502 / 1000 * n) \<le> b" using n unfolding add_divide_distrib by linarith
  have "- (3012 / 100 * n) - (3012 / 100 * n + 1) / 9007199254740992 \<le> c"
    unfolding c_def using b n by (intro fl_lower) linarith+
  then have c: "- (302 / 10 * n) \<le> c" using n unfolding add_divide_distrib by linarith
  have "- (302 / 10) \<le> c / n" using c n by (simp add: pos_le_divide_eq)
  then have "- (302 / 10) - (302 / 10 + 1) / 9007199254740992 \<le> fl (c / n)"
    by (intro fl_lower) simp_all
  then show ?thesis unfolding c_def b_def a_def n_def by simp
qed

lemma harmonyColor_lightness:
  assumes h: "0 \<le> newH" "newH \<le> 360" and s: "0 \<le> sat" "sat \<le> 100"
    and l: "10 \<le> newL" "newL \<le> 90"
  shows "10 \<le> c_l (harmonyColor newH sat newL) \<and> c_l (harmonyColor newH sat newL) \<le> 90"
  using hslToRgb_lightness[OF assms] by (simp add: harmonyColor_def Let_def)

lemma ringColor_lightness:
  assumes "validHSL baseColor"
  shows "10 \<le> c_l (ringColor baseColor rings mode i) \<and> c_l (ringColor baseColor rings mode i) \<le> 90"
proof -
  have h: "0 \<le> c_h baseColor" and s: "0 \<le> c_s baseColor" "c_s baseColor \<le> 100"
    using assms by (auto simp: validHSL_def)
  have rem: "\<And>a. 0 \<le> a \<Longrightarrow> 0 \<le> js_rem (fl a) 360 \<and> js_rem (fl a) 360 \<le> 360"
    using js_rem_360_range fl_nonneg by (simp add: less_imp_le)
  have hc: "\<And>newH newL. 0 \<le> newH \<and> newH \<le> 360 \<Longrightarrow>
      10 \<le> c_l (harmonyColor newH (c_s baseColor) (clampL newL)) \<and>
      c_l (harmonyColor newH (c_s baseColor) (clampL newL)) \<le> 90"
    using harmonyColor_lightness[OF _ _ s] clampL_range by blast
  show ?thesis
  proof (cases mode)
    case Complementary
    have "0 \<le> c_h baseColor + 180" using h by simp
    from hc[OF rem[OF this]] show ?thesis
      by (simp add: Complementary ringColor_def Let_def)
  next
    case Analogous
    define off where "off = fl (fl (fl (real i - fl (real rings / 2)) * 60) / real rings)"
    have "- 31 \<le> c_h baseColor + off" using h analogous_offset[of i rings] by (simp add: off_def)
    then have "- 31 - (31 + 1) / 9007199254740992 \<le> fl (c_h baseColor + off)"
      by (intro fl_lower) simp_all
    then have "0 \<le> fl (c_h baseColor + off) + 360" by simp
    from hc[OF rem[OF this]] show ?thesis
      by (simp add: Analogous ringColor_def Let_def off_def)
  next
    case Triadic
    have "(0::real) \<le> [0, 120, 240] ! (i mod 3)"
      by (cases "i mod 3" rule: nat.exhaust[case_names 0 Suc]) (auto simp: nth_Cons split: nat.splits)
    then have "0 \<le> c_h baseColor + [0, 120, 240] ! (i mod 3)" using h by simp
    from hc[OF rem[OF this]] show ?thesis
      by (simp add: Triadic ringColor_def Let_def bandL_def)
  next
    case Tetradic
    have "(0::real) \<le> [0, 90, 180, 270] ! (i mod 4)"
      by (auto simp: nth_Cons split: nat.splits)
    then have "0 \<le> c_h baseColor + [0, 90, 180, 270] ! (i mod 4)" using h by simp
    from hc[OF rem[OF this]] show ?thesis
      by (simp add: Tetradic ringColor_def Let_def bandL_def)
  next
    case SplitComplementary
    have "(0::real) \<le> [0, 150, 210] ! (i mod 3)"
      by (auto simp: nth_Cons split: nat.splits)
    then have "0 \<le> c_h baseColor + [0, 150, 210] ! (i mod 3)" using h by simp
    from hc[OF rem[OF this]] show ?thesis
      by (simp add: SplitComplementary ringColor_def Let_def bandL_def)
  qed
qed

lemma harmonyColor_consistent: "consistent (harmonyColor newH sat newL)"
  by (simp add: consistent_def harmonyColor_def Let_def)

lemma ringColor_consistent: "consistent (ringColor baseColor rings mode i)"
  by (cases mode) (simp_all add: ringColor_def Let_def harmonyColor_consistent)

lemma rgbToHex_gray: "rgbToHex 128 128 128 = ''#808080''"
  by (simp add: rgbToHex_def padStart2_def toString16_def toHexNat.simps hexDigit_def)

lemma neutralGray_consistent: "consistent (neutralGray imageData)"
  by (simp add: consistent_def neutralGray_def rgbToHex_gray rgbToHsl_gray)

lemma centroidColor_consistent: "consistent (centroidColor imageData colorPositions idx rgb)"
  by (cases rgb) (simp add: consistent_def centroidColor_def Let_def)

section \<open>The sampler and the extraction\<close>

lemma stride4_less: "x \<in> set (stride4 n) \<Longrightarrow> x < n"
  by (auto simp: stride4_def)

lemma sampleCoords_less: "(x, y) \<in> set (sampleCoords w h) \<Longrightarrow> x < w \<and> y < h"
  by (auto simp: sampleCoords_def dest: stride4_less)

lemma sample_index_bound:
  fixes x y w h :: nat
  assumes "x < w" "y < h"
  shows "(y * w + x) * 4 + 3 < 4 * w * h"
proof -
  have "y * w + x < y * w + w" using assms by simp
  also have "\<dots> = (y + 1) * w" by simp
  also have "\<dots> \<le> h * w" using assms by (intro mult_right_mono) auto
  finally have "y * w + x + 1 \<le> w * h" by (simp add: mult.commute)
  then have "4 * (y * w + x + 1) \<le> 4 * (w * h)" by (rule mult_left_mono) simp
  then show ?thesis by (simp add: algebra_simps)
qed

lemma sampleLoop_returns:
  assumes "\<forall>(x, y) \<in> set coords. (y * w + x) * 4 < length d \<longrightarrow> (y * w + x) * 4 + 2 < length d"
  shows "\<exists>res. sampleLoop d w coords acc = Inr res"
  using assms
proof (induction coords arbitrary: acc)
  case Nil
  then show ?case by simp
next
  case (Cons c coords)
  obtain x y where c: "c = (x, y)" by (cases c)
  obtain pixels pps where acc: "acc = (pixels, pps)" by (cases acc)
  from Cons.prems have here: "(y * w + x) * 4 < length d \<longrightarrow> (y * w + x) * 4 + 2 < length d"
    and rest: "\<forall>(x, y) \<in> set coords. (y * w + x) * 4 < length d \<longrightarrow> (y * w + x) * 4 + 2 < length d"
    by (auto simp: c)
  show ?case
    using here Cons.IH[OF rest] by (simp add: c acc Let_def)
qed

lemma samplePixels_returns:
  assumes "wellFormed imageData"
  shows "\<exists>res. samplePixels imageData = Inr res"
  unfolding samplePixels_def
proof (rule sampleLoop_returns, clarify)
  fix x y
  assume "(x, y) \<in> set (sampleCoords (width imageData) (height imageData))"
  then have "x < width imageData" "y < height imageData"
    using sampleCoords_less by blast+
  from sample_index_bound[OF this] assms
  show "(y * width imageData + x) * 4 + 2 < length (data imageData)"
    by (simp add: wellFormed_def)
qed

lemma sampleReads_in_bounds:
  assumes "wellFormed imageData" "j \<in> set (sampleReads imageData)"
  shows "j < length (data imageData)"
proof -
  from assms(2) obtain x y where xy: "(x, y) \<in> set (sampleCoords (width imageData) (height imageData))"
    and j: "j = (y * width imageData + x) * 4 \<or> j = (y * width imageData + x) * 4 + 1
       \<or> j = (y * width imageData + x) * 4 + 2"
    by (auto simp: sampleReads_def sampleOffsets_def)
  from xy have "x < width imageData" "y < height imageData"
    using sampleCoords_less by blast+
  from sample_index_bound[OF this] assms(1) j show ?thesis
    by (auto simp: wellFormed_def)
qed

lemma extract_result_length:
  "length (map f (enumerate 0 (take k cs)) @ replicate (k - length (map f (enumerate 0 (take k cs)))) g) = k"
  by simp

lemma extract_length:
  assumes "extractColorsKMeans rnd imageData k = Inr cs"
  shows "length cs = k"
  using assms
  by (auto simp: extractColorsKMeans_def Let_def split: sum.splits prod.splits if_splits)

lemma extract_consistent:
  assumes "extractColorsKMeans rnd imageData k = Inr cs" "c \<in> set cs"
  shows "consistent c"
  using assms
  by (auto simp: extractColorsKMeans_def Let_def neutralGray_consistent centroidColor_consistent
      split: sum.splits prod.splits if_splits)

lemma extract_returns:
  assumes "wellFormed imageData" "1 \<le> k"
  shows "\<exists>cs. extractColorsKMeans rnd imageData k = Inr cs"
proof -
  from samplePixels_returns[OF assms(1)] obtain res where "samplePixels imageData = Inr res" ..
  then show ?thesis using assms(2)
    by (auto simp: extractColorsKMeans_def Let_def split: sum.splits prod.splits if_splits)
qed

lemma sampleCoords_empty: "w = 0 \<or> h = 0 \<Longrightarrow> sampleCoords w h = []"
  by (auto simp: sampleCoords_def stride4_def)

lemma extract_fallback:
  assumes "samplePixels imageData = Inr ([], pps)"
  shows "extractColorsKMeans rnd imageData k = Inr (replicate k (neutralGray imageData))"
  using assms by (simp add: extractColorsKMeans_def)

lemma sampleLoop_pixels:
  assumes "sampleLoop d w coords (pixels, pps) = Inr (pixels', pps')"
  shows "pixels' = pixels @ map (\<lambda>i. (uint (d ! i), uint (d ! (i + 1)), uint (d ! (i + 2))))
           (filter (\<lambda>i. i < length d) (map (\<lambda>(x, y). (y * w + x) * 4) coords))"
  using assms
proof (induction coords arbitrary: pixels pps)
  case Nil
  then show ?case by simp
next
  case (Cons c coords)
  obtain x y where c: "c = (x, y)" by (cases c)
  show ?case
  proof (cases "(y * w + x) * 4 < length d")
    case True
    with Cons.prems have "(y * w + x) * 4 + 2 < length d"
      by (simp add: c Let_def split: if_splits)
    with Cons.prems True have "sampleLoop d w coords
        (pixels @ [(uint (d ! ((y * w + x) * 4)), uint (d ! ((y * w + x) * 4 + 1)),
                    uint (d ! ((y * w + x) * 4 + 2)))],
         pps @ [(x, y, length pixels)]) = Inr (pixels', pps')"
      by (simp add: c Let_def)
    from Cons.IH[OF this] True show ?thesis
      by (simp add: c)
  next
    case False
    with Cons.prems Cons.IH show ?thesis
      by (simp add: c Let_def)
  qed
qed

lemma samplePixels_pixels:
  assumes "samplePixels imageData = Inr (pixels, pps)"
  shows "pixels = map (\<lambda>i. (uint (data imageData ! i), uint (data imageData ! (i + 1)),
                            uint (data imageData ! (i + 2)))) (sampleOffsets imageData)"
  using sampleLoop_pixels[OF assms[unfolded samplePixels_def]]
  by (simp add: sampleOffsets_def)

lemma sampleLoop_no_data:
  "sampleLoop [] w coords acc = Inr acc"
  by (induction coords arbitrary: acc) (auto simp: Let_def)

subsection \<open>Indices stay in range\<close>

text \<open>
  The model indexes lists where the source indexes arrays. Every index is in range: a
  random index is below the number of pixels, the closest centroid is one of the centroids,
  there are \<open>k\<close> centroids and \<open>k\<close> clusters in every iteration (for \<open>k \<ge> 1\<close>), and the
  replacement search visits pixels that exist.
\<close>

lemma randomIndex_less:
  assumes "0 < len"
  shows "randomIndex rnd n len < len"
proof -
  have f: "0 \<le> frac (rnd n)" "frac (rnd n) < 1" by (simp_all add: frac_lt_1)
  then have "frac (rnd n) * real len < 1 * real len" using assms by (intro mult_strict_right_mono) auto
  then have "\<lfloor>frac (rnd n) * real len\<rfloor> < int len" by (simp add: floor_less_iff)
  moreover have "0 \<le> \<lfloor>frac (rnd n) * real len\<rfloor>" using f by simp
  ultimately show ?thesis by (simp add: randomIndex_def nat_less_iff)
qed

lemma closest_fold_less:
  "snd (fold (\<lambda>(idx, centroid) (minDist, closest).
                  (let dist = Num (colorDistance pixel centroid)
                   in if ext_less dist minDist then (dist, idx) else (minDist, closest)))
               (enumerate i centroids) (m, c)) < i + length centroids \<or>
   snd (fold (\<lambda>(idx, centroid) (minDist, closest).
                  (let dist = Num (colorDistance pixel centroid)
                   in if ext_less dist minDist then (dist, idx) else (minDist, closest)))
               (enumerate i centroids) (m, c)) = c"
proof (induction centroids arbitrary: i m c)
  case Nil
  then show ?case by simp
next
  case (Cons a centroids)
  show ?case
    using Cons.IH[of "Suc i" "Num (colorDistance pixel a)" i] Cons.IH[of "Suc i" m c]
    by (auto simp: Let_def)
qed

lemma closestCentroid_less:
  assumes "centroids \<noteq> []"
  shows "closestCentroid pixel centroids < length centroids"
  using closest_fold_less[of pixel 0 centroids Infinity 0] assms
  by (auto simp: closestCentroid_def)

lemma seedCentroids_length:
  "length (fst (seedCentroids rnd pixels k centroids n)) = max (length centroids) k"
proof (induction rnd pixels k centroids n rule: seedCentroids.induct)
  case (1 rnd pixels k centroids n)
  then show ?case
    by (subst seedCentroids.simps) (auto split: prod.splits option.splits)
qed

lemma updateCentroids_length:
  "updateCentroids rnd pixels clusters n = (cs, n') \<Longrightarrow> length cs = length clusters"
  by (induction clusters arbitrary: n cs n') (auto split: prod.splits)

lemma assignPixels_length:
  "length (fst (assignPixels pixels centroids k)) = k"
proof -
  have "length (fst (fold (\<lambda>pixel (clusters, assignments).
             (let c = closestCentroid pixel centroids
              in (clusters[c := clusters ! c @ [pixel]], assignments @ [c])))
          pixels acc)) = length (fst acc)" for acc
    by (induction pixels arbitrary: acc) (auto simp: Let_def split: prod.splits)
  then show ?thesis by (simp add: assignPixels_def)
qed

lemma kmeansIteration_length:
  "length (fst (kmeansIteration rnd pixels k st)) = k"
proof -
  obtain centroids a n where st: "st = (centroids, a, n)" by (cases st)
  obtain clusters a' where as: "assignPixels pixels centroids k = (clusters, a')"
    by (cases "assignPixels pixels centroids k")
  obtain cs n' where up: "updateCentroids rnd pixels clusters n = (cs, n')"
    by (cases "updateCentroids rnd pixels clusters n")
  have "length clusters = k" using assignPixels_length[of pixels centroids k] as by simp
  with updateCentroids_length[OF up] show ?thesis
    by (simp add: kmeansIteration_def st as up)
qed

lemma visited_index_less:
  assumes "j < (min (length pixels) 1000 + 9) div 10"
  shows "10 * j < length pixels"
  using assms by (auto simp: min_def split: if_splits)

subsection \<open>An image of one pixel\<close>

text \<open>
  The extraction on the image of the single pixel \<open>(10, 20, 30)\<close> with \<open>k = 2\<close>, step by
  step. Every random index is \<open>0\<close>, so the result does not depend on \<open>Math.random\<close>: no
  candidate is farther than \<open>0\<close> from the first centroid, the second cluster stays empty
  and is reseeded in each iteration, and the duplicate centroid is nudged by \<open>30\<close>.
\<close>

lemma randomIndex_single: "randomIndex rnd n (Suc 0) = 0"
proof -
  have "0 \<le> frac (rnd n)" "frac (rnd n) < 1" by (simp_all add: frac_lt_1)
  then have "\<lfloor>frac (rnd n)\<rfloor> = 0" by (intro floor_unique) auto
  then show ?thesis by (simp add: randomIndex_def)
qed

lemma colorDistance_self: "colorDistance p p = 0"
  by (cases p) (simp add: colorDistance_def)

lemma single_sample:
  "samplePixels \<lparr>width = 1, height = 1, data = [10, 20, 30, 255]\<rparr> = Inr ([(10, 20, 30)], [(0, 0, 0)])"
  by (simp add: samplePixels_def sampleCoords_def stride4_def Let_def)

lemma single_try:
  "tryCandidate rnd [p] [p] (None, Num 0, n) = (None, Num 0, Suc n)"
  by (simp add: tryCandidate_def randomIndex_single minDistToExisting_def
      colorDistance_self Let_def)

lemma single_tries:
  "((tryCandidate rnd [p] [p]) ^^ m) (None, Num 0, n) = (None, Num 0, n + m)"
  by (induction m) (simp_all add: single_try)

lemma single_seed:
  "initializeDistinctCentroids rnd [p] 2 n = ([p, p], n + 52)"
proof -
  have "seedCentroids rnd [p] 2 [p] (Suc n) = seedCentroids rnd [p] 2 [p, p] (Suc (Suc n + 50))"
    by (subst seedCentroids.simps) (simp add: single_tries randomIndex_single)
  also have "\<dots> = ([p, p], Suc (Suc n + 50))"
    by (subst seedCentroids.simps) simp
  finally show ?thesis by (simp add: initializeDistinctCentroids_def randomIndex_single)
qed

lemma single_closest: "closestCentroid p [p, p] = 0"
  by (simp add: closestCentroid_def colorDistance_self Let_def)

lemma single_iteration:
  "kmeansIteration rnd [(10, 20, 30)] 2 ([(10, 20, 30), (10, 20, 30)], a, n)
     = ([(10, 20, 30), (10, 20, 30)], [0], Suc n)"
  by (simp add: kmeansIteration_def assignPixels_def single_closest updateCentroid_def
      randomIndex_single numeral_2_eq_2 Let_def)

lemma single_iterations:
  "((kmeansIteration rnd [(10, 20, 30)] 2) ^^ Suc m) ([(10, 20, 30), (10, 20, 30)], a, n)
     = ([(10, 20, 30), (10, 20, 30)], [0], n + Suc m)"
  by (induction m arbitrary: a n) (simp_all add: single_iteration del: funpow.simps add: funpow_Suc_right)

lemma single_distinct:
  "ensureDistinctColors [(10, 20, 30), (10, 20, 30)] [(10, 20, 30)] 60 = [(10, 20, 30), (40, 50, 60)]"
  by (simp add: ensureDistinctColors_def isDistinct_def colorDistance_self
      findDistinctReplacement_def Let_def)

lemma single_position_0:
  "colorPosition \<lparr>width = 1, height = 1, data = [10, 20, 30, 255]\<rparr> 2 [(10, 20, 30)]
     [(0, 0, 0)] [0] 0 (10, 20, 30) = (0, 0)"
  by (simp add: colorPosition_def colorDistance_self Let_def)

lemma single_position_1:
  "colorPosition \<lparr>width = 1, height = 1, data = [10, 20, 30, 255]\<rparr> 2 [(10, 20, 30)]
     [(0, 0, 0)] [0] 1 (40, 50, 60) = (1, 1)"
  by (simp add: colorPosition_def Let_def round_def)

lemma single_color_0:
  "centroidColor img [(0, 0), (1, 1)] 0 (10, 20, 30) =
     \<lparr>c_r = 10, c_g = 20, c_b = 30, c_h = 210, c_s = 50, c_l = 8, c_hex = ''#0a141e'',
      c_position = Some (0, 0)\<rparr>"
  by (simp add: centroidColor_def Let_def rgbToHsl_10_20_30 rgbToHex_def padStart2_def
      toString16_def toHexNat.simps hexDigit_def)

lemma single_color_1:
  "centroidColor img [(0, 0), (1, 1)] 1 (40, 50, 60) =
     \<lparr>c_r = 40, c_g = 50, c_b = 60, c_h = 210, c_s = 20, c_l = 20, c_hex = ''#28323c'',
      c_position = Some (1, 1)\<rparr>"
  by (simp add: centroidColor_def Let_def rgbToHsl_40_50_60 rgbToHex_def padStart2_def
      toString16_def toHexNat.simps hexDigit_def)

lemma extract_single_pixel:
  "extractColorsKMeans rnd \<lparr>width = 1, height = 1, data = [10, 20, 30, 255]\<rparr> 2 =
     Inr [\<lparr>c_r = 10, c_g = 20, c_b = 30, c_h = 210, c_s = 50, c_l = 8, c_hex = ''#0a141e'',
           c_position = Some (0, 0)\<rparr>,
          \<lparr>c_r = 40, c_g = 50, c_b = 60, c_h = 210, c_s = 20, c_l = 20, c_hex = ''#28323c'',
           c_position = Some (1, 1)\<rparr>]"
proof -
  have it: "((kmeansIteration rnd [(10, 20, 30)] 2) ^^ 15) ([(10, 20, 30), (10, 20, 30)], [], 52)
      = ([(10, 20, 30), (10, 20, 30)], [0], 52 + Suc 14)"
    using single_iterations[where rnd = rnd and m = 14 and a = "[]" and n = 52] by (simp only: eval_nat_numeral)
  show ?thesis
    unfolding extractColorsKMeans_def single_sample
    by (simp add: single_seed[where n = 0, simplified] it single_distinct Let_def
        single_position_0[simplified] single_position_1[simplified]
        single_color_0[simplified] single_color_1[simplified])
qed

section \<open>Facts shared by the properties\<close>

lemma harmonyColor_gray_hue: "c_h (harmonyColor newH 0 newL) = 0"
  by (simp add: harmonyColor_def hslToRgb_def rgbToHsl_def Let_def)

lemma harmonyColor_fields:
  "c_r (harmonyColor newH sat newL) = rgb_r (hslToRgb newH sat newL) \<and>
   c_g (harmonyColor newH sat newL) = rgb_g (hslToRgb newH sat newL) \<and>
   c_b (harmonyColor newH sat newL) = rgb_b (hslToRgb newH sat newL)"
  by (simp add: harmonyColor_def Let_def)

lemma samplePixels_empty:
  assumes "width imageData = 0 \<or> height imageData = 0 \<or> data imageData = []"
  shows "samplePixels imageData = Inr ([], [])"
  using assms sampleCoords_empty[of "width imageData" "height imageData"]
  by (auto simp: samplePixels_def sampleLoop_no_data)

text \<open>The sum of two integers up to \<open>360\<close> is a double, and is not rounded.\<close>

lemma fl_integral_sum:
  fixes x d :: real
  assumes "x \<in> \<int>" "0 \<le> x" "x \<le> 360" and "d \<in> \<int>" "0 \<le> d" "d \<le> 360"
  shows "fl (x + d) = x + d"
proof -
  from assms(1) obtain k :: int where k: "x = of_int k" by (rule Ints_cases)
  from assms(4) obtain j :: int where j: "d = of_int j" by (rule Ints_cases)
  have "0 \<le> k" "k \<le> 360" "0 \<le> j" "j \<le> 360" using assms(2,3,5,6) unfolding k j by linarith+
  then have "\<bar>k + j\<bar> < 2 ^ 53" by simp
  from fl_of_int[OF this] show ?thesis unfolding k j by simp
qed

section \<open>Properties\<close>

subsection \<open>C1: the extraction returns exactly \<open>k\<close> colours\<close>

text \<open>
  Claim C1. For every \<open>ImageData\<close> (any width, any height and any pixel contents, the
  empty buffer included; \<open>data\<close> has \<open>4 * width * height\<close> bytes, as every \<open>ImageData\<close>
  has) and every \<open>k \<ge> 1\<close>, \<open>extractColorsKMeans\<close> returns, and what it returns is a
  sequence of exactly \<open>k\<close> colours, whatever \<open>Math.random\<close> delivers. The image of the
  single pixel \<open>(10, 20, 30)\<close> with \<open>k = 2\<close> gives that pixel and the nudged
  \<open>(40, 50, 60)\<close>.
\<close>

theorem extractColorsKMeans_returns_k:
  assumes "wellFormed imageData" "1 \<le> k"
  shows "\<exists>cs. extractColorsKMeans rnd imageData k = Inr cs \<and> length cs = k"
  using extract_returns[OF assms] extract_length by blast

theorem extractColorsKMeans_returns_k_witness:
  "wellFormed \<lparr>width = 1, height = 1, data = [10, 20, 30, 255]\<rparr> \<and> (1::nat) \<le> 2 \<and>
   (\<exists>cs. extractColorsKMeans (\<lambda>n. 0) \<lparr>width = 1, height = 1, data = [10, 20, 30, 255]\<rparr> 2 = Inr cs
      \<and> length cs = 2) \<and>
   extractColorsKMeans (\<lambda>n. 0) \<lparr>width = 1, height = 1, data = [10, 20, 30, 255]\<rparr> 2 =
     Inr [\<lparr>c_r = 10, c_g = 20, c_b = 30, c_h = 210, c_s = 50, c_l = 8, c_hex = ''#0a141e'',
           c_position = Some (0, 0)\<rparr>,
          \<lparr>c_r = 40, c_g = 50, c_b = 60, c_h = 210, c_s = 20, c_l = 20, c_hex = ''#28323c'',
           c_position = Some (1, 1)\<rparr>]"
  using extractColorsKMeans_returns_k[of "\<lparr>width = 1, height = 1, data = [10, 20, 30, 255]\<rparr>" 2 "\<lambda>n. 0"]
    extract_single_pixel[of "\<lambda>n. 0"]
  by (simp add: wellFormed_def)

subsection \<open>C2: a ring has \<open>rings\<close> entries\<close>

text \<open>
  Claim C2. For every base colour, every ring count (in particular every one in \<open>[3, 12]\<close>)
  and each of the five harmony modes, \<open>generateComplementaryColors\<close> returns a sequence of
  length exactly \<open>rings\<close>.
\<close>

theorem generateComplementaryColors_length:
  "length (generateComplementaryColors baseColor rings mode) = rings"
  by (simp add: generateComplementaryColors_def)

subsection \<open>C3: the hue of a complementary ring\<close>

text \<open>
  Claim C3 as stated (every entry has \<open>h = (base.h + 180) % 360\<close>) fails. The \<open>h\<close>
  field of an entry is not the hue the loop computed but the hue \<open>rgbToHsl\<close>
  derives again from the rounded \<open>r\<close>, \<open>g\<close>, \<open>b\<close>. For the neutral gray
  \<open>(h, s, l) = (0, 0, 50)\<close> and three rings the first entry is the gray \<open>(51, 51, 51)\<close>,
  whose hue is \<open>0\<close>, while \<open>(0 + 180) % 360 = 180\<close>. Rounding moves the hue of a chromatic
  colour too: for the base \<open>(100, 150, 200)\<close>, which is \<open>(h, s, l) = (210, 48, 59)\<close>, the last
  of six rings is \<open>hslToRgb(30, 48, 79) = (227, 201, 176)\<close>, whose hue is \<open>29\<close>.
\<close>

theorem complementary_hue_counterexample:
  "validHSL \<lparr>c_r = 128, c_g = 128, c_b = 128, c_h = 0, c_s = 0, c_l = 50,
      c_hex = ''#808080'', c_position = None\<rparr> \<and>
   c_h (generateComplementaryColors
          \<lparr>c_r = 128, c_g = 128, c_b = 128, c_h = 0, c_s = 0, c_l = 50,
           c_hex = ''#808080'', c_position = None\<rparr> 3 Complementary ! 0) = 0 \<and>
   js_rem (c_h \<lparr>c_r = 128, c_g = 128, c_b = 128, c_h = 0, c_s = 0, c_l = 50,
                c_hex = ''#808080'', c_position = None\<rparr> + 180) 360 = 180 \<and>
   validHSL \<lparr>c_r = 100, c_g = 150, c_b = 200, c_h = 210, c_s = 48, c_l = 59,
      c_hex = ''#6496c8'', c_position = None\<rparr> \<and>
   c_h (generateComplementaryColors
          \<lparr>c_r = 100, c_g = 150, c_b = 200, c_h = 210, c_s = 48, c_l = 59,
           c_hex = ''#6496c8'', c_position = None\<rparr> 6 Complementary ! 5) = 29 \<and>
   js_rem (c_h \<lparr>c_r = 100, c_g = 150, c_b = 200, c_h = 210, c_s = 48, c_l = 59,
                c_hex = ''#6496c8'', c_position = None\<rparr> + 180) 360 = 30"
proof -
  have rem: "js_rem 180 360 = 180" "js_rem 390 360 = 30" by (simp_all add: js_rem_def)
  have "c_h (harmonyColor 30 48 79) = 29"
    by (simp add: harmonyColor_def Let_def hslToRgb_30_48_79 rgbToHsl_227_201_176)
  then show ?thesis
    by (simp add: validHSL_def nth_generate ringColor_def clampL_def rem harmonyColor_gray_hue)
qed

text \<open>
  Claim C3, as amended. For every valid base colour and every ring count, every entry of the
  complementary ring is built from the hue \<open>(base.h + 180) % 360\<close>: its \<open>r\<close>, \<open>g\<close>,
  \<open>b\<close> are those of \<open>hslToRgb((base.h + 180) % 360, base.s, newL)\<close> for a lightness
  \<open>newL\<close> in \<open>[10, 90]\<close>, and its \<open>h\<close> field is the hue \<open>rgbToHsl\<close> derives from
  these \<open>r\<close>, \<open>g\<close>, \<open>b\<close>; it is \<open>0\<close> when \<open>base.s = 0\<close>. The sum \<open>base.h + 180\<close> is
  the sum of the source, rounded to a double; for a base colour with an integral hue, as
  \<open>rgbToHsl\<close> gives it, the sum is exact.
\<close>

theorem complementary_target_hue:
  assumes "validHSL baseColor"
    and "c \<in> set (generateComplementaryColors baseColor rings Complementary)"
  shows "(\<exists>newL. 10 \<le> newL \<and> newL \<le> 90 \<and>
           c_r c = rgb_r (hslToRgb (js_rem (fl (c_h baseColor + 180)) 360) (c_s baseColor) newL) \<and>
           c_g c = rgb_g (hslToRgb (js_rem (fl (c_h baseColor + 180)) 360) (c_s baseColor) newL) \<and>
           c_b c = rgb_b (hslToRgb (js_rem (fl (c_h baseColor + 180)) 360) (c_s baseColor) newL) \<and>
           c_h c = of_int (hsl_h (rgbToHsl (of_int (c_r c)) (of_int (c_g c)) (of_int (c_b c)))) \<and>
           (c_s baseColor = 0 \<longrightarrow> c_h c = 0)) \<and>
         (c_h baseColor \<in> \<int> \<longrightarrow> fl (c_h baseColor + 180) = c_h baseColor + 180)"
proof
  show "c_h baseColor \<in> \<int> \<longrightarrow> fl (c_h baseColor + 180) = c_h baseColor + 180"
    using assms(1) by (auto simp: validHSL_def intro!: fl_integral_sum)
next
  from assms(2) obtain i where
    c: "c = harmonyColor (js_rem (fl (c_h baseColor + 180)) 360) (c_s baseColor)
              (clampL (fl (c_l baseColor
                 + fl (fl (real i - fl (real rings / 2)) * fl (60 / real rings)))))"
    by (auto simp: set_generate ringColor_def Let_def)
  define newL where "newL = clampL (fl (c_l baseColor
      + fl (fl (real i - fl (real rings / 2)) * fl (60 / real rings))))"
  have "10 \<le> newL \<and> newL \<le> 90" unfolding newL_def by (rule clampL_range)
  moreover have "consistent c" unfolding c by (rule harmonyColor_consistent)
  moreover have "c_s baseColor = 0 \<longrightarrow> c_h c = 0"
    unfolding c using harmonyColor_gray_hue by simp
  ultimately show "\<exists>newL. 10 \<le> newL \<and> newL \<le> 90 \<and>
           c_r c = rgb_r (hslToRgb (js_rem (fl (c_h baseColor + 180)) 360) (c_s baseColor) newL) \<and>
           c_g c = rgb_g (hslToRgb (js_rem (fl (c_h baseColor + 180)) 360) (c_s baseColor) newL) \<and>
           c_b c = rgb_b (hslToRgb (js_rem (fl (c_h baseColor + 180)) 360) (c_s baseColor) newL) \<and>
           c_h c = of_int (hsl_h (rgbToHsl (of_int (c_r c)) (of_int (c_g c)) (of_int (c_b c)))) \<and>
           (c_s baseColor = 0 \<longrightarrow> c_h c = 0)"
    unfolding c newL_def[symmetric] using harmonyColor_fields[of _ "c_s baseColor" newL]
    by (intro exI[of _ newL]) (simp add: consistent_def)
qed

theorem complementary_target_hue_witness:
  "validHSL \<lparr>c_r = 128, c_g = 128, c_b = 128, c_h = 0, c_s = 0, c_l = 50,
      c_hex = ''#808080'', c_position = None\<rparr> \<and>
   c_h (generateComplementaryColors
          \<lparr>c_r = 128, c_g = 128, c_b = 128, c_h = 0, c_s = 0, c_l = 50,
           c_hex = ''#808080'', c_position = None\<rparr> 3 Complementary ! 0) = 0"
proof -
  let ?B = "\<lparr>c_r = 128, c_g = 128, c_b = 128, c_h = 0, c_s = 0, c_l = 50,
      c_hex = ''#808080'', c_position = None\<rparr>"
  have v: "validHSL ?B" by (simp add: validHSL_def)
  have m: "generateComplementaryColors ?B 3 Complementary ! 0
      \<in> set (generateComplementaryColors ?B 3 Complementary)"
    by (rule nth_mem) (simp add: length_generate)
  from complementary_target_hue[OF v m] v show ?thesis by auto
qed

subsection \<open>C4: converting to HSL and back\<close>

text \<open>
  Claim C4 as stated (a difference of at most \<open>1\<close> in each channel) fails. The rounding
  of \<open>h\<close>, \<open>s\<close> and \<open>l\<close> to integers loses more than one unit of a channel: \<open>rgbToHsl(0, 0, 2)\<close> is \<open>(240, 100, 0)\<close>, and \<open>hslToRgb(240, 100, 0)\<close> is
  black, two units away in the blue channel.
\<close>

theorem hsl_round_trip_counterexample:
  "hslRoundTrip 0 0 2 = \<lparr>rgb_r = 0, rgb_g = 0, rgb_b = 0\<rparr> \<and>
   \<not> \<bar>rgb_b (hslRoundTrip 0 0 2) - 2\<bar> \<le> 1"
  by (simp add: hslRoundTrip_def rgbToHsl_0_0_2 hslToRgb_240_100_0)

text \<open>
  Claim C4, as amended. For every \<open>r\<close>, \<open>g\<close>, \<open>b\<close> (integers in \<open>[0, 255]\<close>),
  \<open>hslToRgb\<close> applied to \<open>rgbToHsl(r, g, b)\<close> differs from \<open>(r, g, b)\<close> by at most \<open>5\<close> in
  each channel. In exact arithmetic and without the rounding to integers the two conversions are
  inverse; rounding \<open>h\<close> to a degree and \<open>s\<close>, \<open>l\<close> to a percent moves a channel by at most
  \<open>1/48\<close> of its range, that is \<open>5.3125\<close> units, the rounding of the doubles by less than two
  millionths of a unit, and the last rounding by another half. The bound is attained:
  \<open>(2, 228, 230)\<close> comes back as \<open>(2, 223, 227)\<close>.
\<close>

theorem hsl_round_trip_within_5:
  assumes "0 \<le> r0" "r0 \<le> 255" "0 \<le> g0" "g0 \<le> 255" "0 \<le> b0" "b0 \<le> 255"
  shows "\<bar>rgb_r (hslRoundTrip r0 g0 b0) - r0\<bar> \<le> 5 \<and>
         \<bar>rgb_g (hslRoundTrip r0 g0 b0) - g0\<bar> \<le> 5 \<and>
         \<bar>rgb_b (hslRoundTrip r0 g0 b0) - b0\<bar> \<le> 5"
proof -
  note es = eps_pos eps_small
  define r where "r = real_of_int r0 / 255"
  define g where "g = real_of_int g0 / 255"
  define b where "b = real_of_int b0 / 255"
  have rng: "0 \<le> r" "r \<le> 1" "0 \<le> g" "g \<le> 1" "0 \<le> b" "b \<le> 1"
    using assms by (simp_all add: r_def g_def b_def)
  define H where "H = hueOf r g b"
  define S where "S = saturationOf r g b"
  define L where "L = lightnessOf r g b"
  have Hr: "0 \<le> H" "H \<le> 1" unfolding H_def using hueOf_range[OF rng] by simp_all
  have Sr: "0 \<le> S" "S \<le> 1" unfolding S_def using saturationOf_range[OF rng] by simp_all
  have Lr: "0 \<le> L" "L \<le> 1" unfolding L_def using lightnessOf_range[OF rng] by simp_all
  obtain hf sf lf where
    eq1: "rgbToHsl (of_int r0) (of_int g0) (of_int b0) =
       \<lparr>hsl_h = round (fl (hf * 360)), hsl_s = round (fl (sf * 100)), hsl_l = round (fl (lf * 100))\<rparr>"
    and nh: "\<bar>hf - H\<bar> \<le> 5000 * eps" and ns: "\<bar>sf - S\<bar> \<le> 5000 * eps"
    and nl: "\<bar>lf - L\<bar> \<le> 5000 * eps"
    unfolding H_def S_def L_def r_def g_def b_def by (rule rgbToHsl_near[OF assms])
  define hh where "hh = round (fl (hf * 360))"
  define ss where "ss = round (fl (sf * 100))"
  define ll where "ll = round (fl (lf * 100))"
  have dh: "\<bar>of_int hh / 360 - H\<bar> \<le> 1 / 720 + 5001 * eps"
    and hr: "0 \<le> hh \<and> real_of_int hh \<le> 360"
    unfolding hh_def using scaled_round_near[OF nh Hr, of 360] by simp_all
  have ds: "\<bar>of_int ss / 100 - S\<bar> \<le> 1 / 200 + 5001 * eps"
    and sr: "0 \<le> ss \<and> real_of_int ss \<le> 100"
    unfolding ss_def using scaled_round_near[OF ns Sr, of 100] by simp_all
  have dl: "\<bar>of_int ll / 100 - L\<bar> \<le> 1 / 200 + 5001 * eps"
    and lr: "0 \<le> ll \<and> real_of_int ll \<le> 100"
    unfolding ll_def using scaled_round_near[OF nl Lr, of 100] by simp_all
  have RT: "hslRoundTrip r0 g0 b0 = hslToRgb (of_int hh) (of_int ss) (of_int ll)"
    by (simp add: hslRoundTrip_def eq1 hh_def ss_def ll_def)
  have in1: "(0::real) \<le> of_int hh" "real_of_int hh \<le> 360" "(0::real) \<le> of_int ss"
    "real_of_int ss \<le> 100" "(0::real) \<le> of_int ll" "real_of_int ll \<le> 100"
    using hr sr lr by simp_all
  obtain vr vg vb where
    eq2: "hslToRgb (of_int hh) (of_int ss) (of_int ll) =
        \<lparr>rgb_r = round (fl (vr * 255)), rgb_g = round (fl (vg * 255)), rgb_b = round (fl (vb * 255))\<rparr>"
    and nr: "\<bar>vr - channelOf (of_int hh / 360 + 1 / 3) (of_int ss / 100) (of_int ll / 100)\<bar> \<le> 250 * eps"
    and ng: "\<bar>vg - channelOf (of_int hh / 360) (of_int ss / 100) (of_int ll / 100)\<bar> \<le> 250 * eps"
    and nb: "\<bar>vb - channelOf (of_int hh / 360 - 1 / 3) (of_int ss / 100) (of_int ll / 100)\<bar> \<le> 250 * eps"
    by (rule hslToRgb_channels[OF in1])
  have l'r: "0 \<le> real_of_int ll / 100" "real_of_int ll / 100 \<le> 1" using in1 by simp_all
  have h'r: "0 \<le> real_of_int hh / 360" "real_of_int hh / 360 \<le> 1" using in1 by simp_all
  have err: "\<bar>channelOf (of_int hh / 360 + dt) (of_int ss / 100) (of_int ll / 100)
      - channelOf (H + dt) S L\<bar> \<le> 1 / 48 + 42750 * eps"
    if "- 1 / 3 \<le> dt" "dt \<le> 1 / 3" for dt
  proof -
    have t: "\<bar>of_int hh / 360 + dt - (H + dt)\<bar> \<le> 1 / 720 + 5001 * eps" using dh by simp
    have "\<bar>channelOf (of_int hh / 360 + dt) (of_int ss / 100) (of_int ll / 100)
      - channelOf (H + dt) S L\<bar>
      \<le> 2 * (1 / 200 + 5001 * eps) + (1 / 200 + 5001 * eps) / 2 + 6 * (1 / 720 + 5001 * eps)"
      using that Hr h'r by (intro channel_error[OF dl ds t Sr Lr l'r]) auto
    then show ?thesis using es by (simp add: add_divide_distrib)
  qed
  have ex: "channelOf (H + 1 / 3) S L = r" "channelOf H S L = g" "channelOf (H - 1 / 3) S L = b"
    unfolding H_def S_def L_def by (rule exact_channels[OF rng])+
  have "\<bar>vr - r\<bar> \<le> 1 / 48 + 43000 * eps"
    using err[of "1 / 3"] ex(1) nr es by simp
  then have c1: "\<bar>round (fl (vr * 255)) - r0\<bar> \<le> 5"
    unfolding r_def by (rule channel_back[OF _ assms(1,2)])
  have "\<bar>vg - g\<bar> \<le> 1 / 48 + 43000 * eps"
    using err[of 0] ex(2) ng es by simp
  then have c2: "\<bar>round (fl (vg * 255)) - g0\<bar> \<le> 5"
    unfolding g_def by (rule channel_back[OF _ assms(3,4)])
  have "\<bar>vb - b\<bar> \<le> 1 / 48 + 43000 * eps"
    using err[of "- 1 / 3"] ex(3) nb es by simp
  then have c3: "\<bar>round (fl (vb * 255)) - b0\<bar> \<le> 5"
    unfolding b_def by (rule channel_back[OF _ assms(5,6)])
  show ?thesis unfolding RT eq2 using c1 c2 c3 by simp
qed

theorem hsl_round_trip_within_5_witness:
  "(0::int) \<le> 2 \<and> (230::int) \<le> 255 \<and>
   hslRoundTrip 2 228 230 = \<lparr>rgb_r = 2, rgb_g = 223, rgb_b = 227\<rparr> \<and>
   \<bar>rgb_r (hslRoundTrip 2 228 230) - 2\<bar> \<le> 5 \<and>
   \<bar>rgb_g (hslRoundTrip 2 228 230) - 228\<bar> \<le> 5 \<and>
   \<bar>rgb_b (hslRoundTrip 2 228 230) - 230\<bar> \<le> 5"
proof -
  have "hslRoundTrip 2 228 230 = \<lparr>rgb_r = 2, rgb_g = 223, rgb_b = 227\<rparr>"
    by (simp add: hslRoundTrip_def rgbToHsl_2_228_230 hslToRgb_181_98_45)
  with hsl_round_trip_within_5[of 2 228 230] show ?thesis by simp
qed

subsection \<open>C5: the lightness of a ring\<close>

text \<open>
  Claim C5. For every valid base colour, every ring count and each of the five harmony
  modes, every colour of the ring has its \<open>l\<close> field in \<open>[10, 90]\<close>. The field is derived
  from the rounded channels. Their largest and smallest are, up to the rounding of the doubles,
  the rounded \<open>q\<close> and \<open>p\<close> of \<open>hslToRgb\<close>, so that their sum is within \<open>1\<close> of
  \<open>510 * newL / 100\<close> and lies in \<open>[50, 460]\<close>, \<open>newL\<close> being clamped to \<open>[10, 90]\<close>; then
  \<open>l\<close> is the rounding of a number between \<open>9.8\<close> and \<open>90.2\<close>.
\<close>

theorem harmony_lightness_in_range:
  assumes "validHSL baseColor"
    and "c \<in> set (generateComplementaryColors baseColor rings mode)"
  shows "10 \<le> c_l c \<and> c_l c \<le> 90"
  using assms(2) ringColor_lightness[OF assms(1)] by (auto simp: set_generate)

theorem harmony_lightness_in_range_witness:
  "validHSL \<lparr>c_r = 255, c_g = 0, c_b = 0, c_h = 0, c_s = 100, c_l = 50,
      c_hex = ''#ff0000'', c_position = None\<rparr> \<and>
   10 \<le> c_l (generateComplementaryColors
          \<lparr>c_r = 255, c_g = 0, c_b = 0, c_h = 0, c_s = 100, c_l = 50,
           c_hex = ''#ff0000'', c_position = None\<rparr> 12 Tetradic ! 11) \<and>
   c_l (generateComplementaryColors
          \<lparr>c_r = 255, c_g = 0, c_b = 0, c_h = 0, c_s = 100, c_l = 50,
           c_hex = ''#ff0000'', c_position = None\<rparr> 12 Tetradic ! 11) \<le> 90"
proof -
  let ?B = "\<lparr>c_r = 255, c_g = 0, c_b = 0, c_h = 0, c_s = 100, c_l = 50,
      c_hex = ''#ff0000'', c_position = None\<rparr>"
  have v: "validHSL ?B" by (simp add: validHSL_def)
  have m: "generateComplementaryColors ?B 12 Tetradic ! 11
      \<in> set (generateComplementaryColors ?B 12 Tetradic)"
    by (rule nth_mem) (simp add: length_generate)
  from harmony_lightness_in_range[OF v m] v show ?thesis by simp
qed

subsection \<open>C6: the fields of a colour agree\<close>

text \<open>
  Claim C6. Every colour returned by \<open>extractColorsKMeans\<close> (for an \<open>ImageData\<close> and
  \<open>k \<ge> 1\<close>) and by \<open>generateComplementaryColors\<close> (for a valid base colour) has
  \<open>hex = rgbToHex(r, g, b)\<close> and \<open>(h, s, l) = rgbToHsl(r, g, b)\<close> for its own \<open>r\<close>,
  \<open>g\<close>, \<open>b\<close>; the literal neutral gray of the fallback and of the padding included.
\<close>

theorem colors_fields_consistent:
  "(wellFormed imageData \<longrightarrow> 1 \<le> k \<longrightarrow>
      (\<exists>cs. extractColorsKMeans rnd imageData k = Inr cs \<and> (\<forall>c \<in> set cs. consistent c))) \<and>
   (validHSL baseColor \<longrightarrow>
      (\<forall>c \<in> set (generateComplementaryColors baseColor rings mode). consistent c))"
proof (intro conjI impI)
  assume "wellFormed imageData" "1 \<le> k"
  from extract_returns[OF this] obtain cs where "extractColorsKMeans rnd imageData k = Inr cs" ..
  then show "\<exists>cs. extractColorsKMeans rnd imageData k = Inr cs \<and> (\<forall>c \<in> set cs. consistent c)"
    using extract_consistent by blast
next
  show "\<forall>c \<in> set (generateComplementaryColors baseColor rings mode). consistent c"
    by (auto simp: set_generate ringColor_consistent)
qed

theorem colors_fields_consistent_witness:
  "(\<exists>cs. extractColorsKMeans (\<lambda>n. 0) \<lparr>width = 1, height = 1, data = [10, 20, 30, 255]\<rparr> 2 = Inr cs
      \<and> (\<forall>c \<in> set cs. consistent c)) \<and>
   consistent (generateComplementaryColors
      \<lparr>c_r = 255, c_g = 0, c_b = 0, c_h = 0, c_s = 100, c_l = 50,
       c_hex = ''#ff0000'', c_position = None\<rparr> 3 Analogous ! 2)"
proof -
  let ?B = "\<lparr>c_r = 255, c_g = 0, c_b = 0, c_h = 0, c_s = 100, c_l = 50,
      c_hex = ''#ff0000'', c_position = None\<rparr>"
  let ?I = "\<lparr>width = 1, height = 1, data = [10, 20, 30, 255]\<rparr>"
  have w: "wellFormed ?I" by (simp add: wellFormed_def)
  have v: "validHSL ?B" by (simp add: validHSL_def)
  have m: "generateComplementaryColors ?B 3 Analogous ! 2
      \<in> set (generateComplementaryColors ?B 3 Analogous)"
    by (rule nth_mem) (simp add: length_generate)
  from colors_fields_consistent[of ?I 2 "\<lambda>n. 0" ?B 3 Analogous] w v m show ?thesis by simp
qed

subsection \<open>C7: the fallback palette\<close>

text \<open>
  Claim C7. When no pixel is sampled (as for a buffer of width \<open>0\<close> or height \<open>0\<close>, or
  with no data), \<open>extractColorsKMeans\<close> skips the clustering and returns \<open>k\<close> entries of the
  neutral gray \<open>(128, 128, 128)\<close>, \<open>#808080\<close>, \<open>h = 0\<close>, \<open>s = 0\<close>, \<open>l = 50\<close>, positioned
  at \<open>(width / 2, height / 2)\<close>, which is \<open>(0, 0)\<close> for the image of width and height
  \<open>0\<close>.
\<close>

theorem extract_empty_sample_gray:
  "(width imageData = 0 \<or> height imageData = 0 \<or> data imageData = []
      \<longrightarrow> samplePixels imageData = Inr ([], [])) \<and>
   (samplePixels imageData = Inr ([], pps) \<longrightarrow>
      extractColorsKMeans rnd imageData k =
        Inr (replicate k
          \<lparr>c_r = 128, c_g = 128, c_b = 128, c_h = 0, c_s = 0, c_l = 50, c_hex = ''#808080'',
           c_position = Some (real (width imageData) / 2, real (height imageData) / 2)\<rparr>)) \<and>
   (width imageData = 0 \<and> height imageData = 0 \<longrightarrow>
      extractColorsKMeans rnd imageData k =
        Inr (replicate k
          \<lparr>c_r = 128, c_g = 128, c_b = 128, c_h = 0, c_s = 0, c_l = 50, c_hex = ''#808080'',
           c_position = Some (0, 0)\<rparr>))"
proof (intro conjI impI)
  assume "width imageData = 0 \<or> height imageData = 0 \<or> data imageData = []"
  then show "samplePixels imageData = Inr ([], [])" by (rule samplePixels_empty)
next
  assume "samplePixels imageData = Inr ([], pps)"
  from extract_fallback[OF this]
  show "extractColorsKMeans rnd imageData k =
        Inr (replicate k
          \<lparr>c_r = 128, c_g = 128, c_b = 128, c_h = 0, c_s = 0, c_l = 50, c_hex = ''#808080'',
           c_position = Some (real (width imageData) / 2, real (height imageData) / 2)\<rparr>)"
    by (simp add: neutralGray_def)
next
  assume z: "width imageData = 0 \<and> height imageData = 0"
  then have "samplePixels imageData = Inr ([], [])" by (intro samplePixels_empty) simp
  from extract_fallback[OF this] z
  show "extractColorsKMeans rnd imageData k =
        Inr (replicate k
          \<lparr>c_r = 128, c_g = 128, c_b = 128, c_h = 0, c_s = 0, c_l = 50, c_hex = ''#808080'',
           c_position = Some (0, 0)\<rparr>)"
    by (simp add: neutralGray_def)
qed

theorem extract_empty_sample_gray_witness:
  "samplePixels \<lparr>width = 0, height = 3, data = []\<rparr> = Inr ([], []) \<and>
   extractColorsKMeans (\<lambda>n. 0) \<lparr>width = 0, height = 3, data = []\<rparr> 2 =
     Inr [\<lparr>c_r = 128, c_g = 128, c_b = 128, c_h = 0, c_s = 0, c_l = 50, c_hex = ''#808080'',
           c_position = Some (0, 3 / 2)\<rparr>,
          \<lparr>c_r = 128, c_g = 128, c_b = 128, c_h = 0, c_s = 0, c_l = 50, c_hex = ''#808080'',
           c_position = Some (0, 3 / 2)\<rparr>] \<and>
   extractColorsKMeans (\<lambda>n. 0) \<lparr>width = 0, height = 0, data = []\<rparr> 1 =
     Inr [\<lparr>c_r = 128, c_g = 128, c_b = 128, c_h = 0, c_s = 0, c_l = 50, c_hex = ''#808080'',
           c_position = Some (0, 0)\<rparr>]"
  using extract_empty_sample_gray[of "\<lparr>width = 0, height = 3, data = []\<rparr>" "[]" "\<lambda>n. 0" 2]
    extract_empty_sample_gray[of "\<lparr>width = 0, height = 0, data = []\<rparr>" "[]" "\<lambda>n. 0" 1]
  by (simp add: numeral_2_eq_2)

subsection \<open>C8: the hues of a triadic ring\<close>

text \<open>
  Claim C8 as stated (the entries have the hues \<open>base.h + 0\<close>, \<open>+ 120\<close>, \<open>+ 240\<close> modulo
  \<open>360\<close>) fails. As for the complementary ring, the \<open>h\<close> field is derived again from the
  rounded channels: for the neutral gray \<open>(h, s, l) = (0, 0, 50)\<close> the entry at index \<open>1\<close> of the
  triadic ring of six has hue \<open>0\<close>, not \<open>(0 + 120) % 360 = 120\<close>. For the base
  \<open>(25, 75, 150)\<close>, which is \<open>(h, s, l) = (216, 71, 34)\<close>, the entry at index \<open>1\<close> is
  \<open>hslToRgb(336, 71, 14) = (61, 10, 31)\<close>, whose hue is \<open>335\<close>.
\<close>

theorem triadic_hue_counterexample:
  "validHSL \<lparr>c_r = 128, c_g = 128, c_b = 128, c_h = 0, c_s = 0, c_l = 50,
      c_hex = ''#808080'', c_position = None\<rparr> \<and>
   c_h (generateComplementaryColors
          \<lparr>c_r = 128, c_g = 128, c_b = 128, c_h = 0, c_s = 0, c_l = 50,
           c_hex = ''#808080'', c_position = None\<rparr> 6 Triadic ! 1) = 0 \<and>
   js_rem (c_h \<lparr>c_r = 128, c_g = 128, c_b = 128, c_h = 0, c_s = 0, c_l = 50,
                c_hex = ''#808080'', c_position = None\<rparr> + 120) 360 = 120 \<and>
   validHSL \<lparr>c_r = 25, c_g = 75, c_b = 150, c_h = 216, c_s = 71, c_l = 34,
      c_hex = ''#194b96'', c_position = None\<rparr> \<and>
   c_h (generateComplementaryColors
          \<lparr>c_r = 25, c_g = 75, c_b = 150, c_h = 216, c_s = 71, c_l = 34,
           c_hex = ''#194b96'', c_position = None\<rparr> 6 Triadic ! 1) = 335 \<and>
   js_rem (c_h \<lparr>c_r = 25, c_g = 75, c_b = 150, c_h = 216, c_s = 71, c_l = 34,
                c_hex = ''#194b96'', c_position = None\<rparr> + 120) 360 = 336"
proof -
  have rem: "js_rem 120 360 = 120" "js_rem 336 360 = 336" by (simp_all add: js_rem_def)
  have "c_h (harmonyColor 336 71 14) = 335"
    by (simp add: harmonyColor_def Let_def hslToRgb_336_71_14 rgbToHsl_61_10_31)
  then show ?thesis
    by (simp add: validHSL_def nth_generate ringColor_def clampL_def bandL_def rem
        harmonyColor_gray_hue fl_consts)
qed

text \<open>
  Claim C8, as amended. For every valid base colour, the six entries of the triadic ring are
  built from the hues \<open>(base.h + 0) % 360\<close> at the indices \<open>0\<close> and \<open>3\<close>,
  \<open>(base.h + 120) % 360\<close> at \<open>1\<close> and \<open>4\<close>, and \<open>(base.h + 240) % 360\<close> at \<open>2\<close> and
  \<open>5\<close>: the \<open>r\<close>, \<open>g\<close>, \<open>b\<close> of the entry are those of \<open>hslToRgb\<close> at that hue,
  \<open>base.s\<close> and a lightness in \<open>[10, 90]\<close>, and its \<open>h\<close> field is the hue \<open>rgbToHsl\<close>
  derives from them; it is \<open>0\<close> when \<open>base.s = 0\<close>. The sums are those of the source,
  rounded to a double; for a base colour with an integral hue, as \<open>rgbToHsl\<close> gives it,
  they are exact.
\<close>

theorem triadic_target_hues:
  assumes "validHSL baseColor" and "i < 6"
  shows "(\<exists>newL. 10 \<le> newL \<and> newL \<le> 90 \<and>
     (let c = generateComplementaryColors baseColor 6 Triadic ! i;
          rgb = hslToRgb (js_rem (fl (c_h baseColor + [0, 120, 240, 0, 120, 240] ! i)) 360)
                  (c_s baseColor) newL
      in c_r c = rgb_r rgb \<and> c_g c = rgb_g rgb \<and> c_b c = rgb_b rgb \<and>
         c_h c = of_int (hsl_h (rgbToHsl (of_int (c_r c)) (of_int (c_g c)) (of_int (c_b c)))) \<and>
         (c_s baseColor = 0 \<longrightarrow> c_h c = 0))) \<and>
     (c_h baseColor \<in> \<int> \<longrightarrow>
        fl (c_h baseColor + [0, 120, 240, 0, 120, 240] ! i)
          = c_h baseColor + [0, 120, 240, 0, 120, 240] ! i)"
proof
  from assms(2) have i: "i = 0 \<or> i = 1 \<or> i = 2 \<or> i = 3 \<or> i = 4 \<or> i = 5" by linarith
  then have off: "([0, 120, 240, 0, 120, 240] ! i :: real) \<in> \<int>"
    "0 \<le> ([0, 120, 240, 0, 120, 240] ! i :: real)" "([0, 120, 240, 0, 120, 240] ! i :: real) \<le> 360"
    by (elim disjE; simp)+
  show "c_h baseColor \<in> \<int> \<longrightarrow>
        fl (c_h baseColor + [0, 120, 240, 0, 120, 240] ! i)
          = c_h baseColor + [0, 120, 240, 0, 120, 240] ! i"
    using assms(1) off by (auto simp: validHSL_def intro!: fl_integral_sum)
next
  define newL where "newL = bandL baseColor 6 3 i"
  have hue: "[0, 120, 240] ! (i mod 3) = ([0, 120, 240, 0, 120, 240] ! i :: real)"
  proof -
    from assms(2) have "i = 0 \<or> i = 1 \<or> i = 2 \<or> i = 3 \<or> i = 4 \<or> i = 5" by linarith
    then show ?thesis by (elim disjE) simp_all
  qed
  have c: "generateComplementaryColors baseColor 6 Triadic ! i =
      harmonyColor (js_rem (fl (c_h baseColor + [0, 120, 240, 0, 120, 240] ! i)) 360)
        (c_s baseColor) newL"
    using assms(2) by (simp add: nth_generate ringColor_def Let_def newL_def hue)
  have rng: "10 \<le> newL \<and> newL \<le> 90"
    unfolding newL_def bandL_def Let_def by (rule clampL_range)
  have cons: "consistent (generateComplementaryColors baseColor 6 Triadic ! i)"
    unfolding c by (rule harmonyColor_consistent)
  have gray: "c_s baseColor = 0 \<longrightarrow> c_h (generateComplementaryColors baseColor 6 Triadic ! i) = 0"
    unfolding c using harmonyColor_gray_hue by simp
  show "\<exists>newL. 10 \<le> newL \<and> newL \<le> 90 \<and>
     (let c = generateComplementaryColors baseColor 6 Triadic ! i;
          rgb = hslToRgb (js_rem (fl (c_h baseColor + [0, 120, 240, 0, 120, 240] ! i)) 360)
                  (c_s baseColor) newL
      in c_r c = rgb_r rgb \<and> c_g c = rgb_g rgb \<and> c_b c = rgb_b rgb \<and>
         c_h c = of_int (hsl_h (rgbToHsl (of_int (c_r c)) (of_int (c_g c)) (of_int (c_b c)))) \<and>
         (c_s baseColor = 0 \<longrightarrow> c_h c = 0))"
    using rng cons gray harmonyColor_fields[of _ "c_s baseColor" newL]
    by (intro exI[of _ newL]) (simp add: Let_def consistent_def c)
qed

theorem triadic_target_hues_witness:
  "validHSL \<lparr>c_r = 128, c_g = 128, c_b = 128, c_h = 0, c_s = 0, c_l = 50,
      c_hex = ''#808080'', c_position = None\<rparr> \<and> (4::nat) < 6 \<and>
   c_h (generateComplementaryColors
          \<lparr>c_r = 128, c_g = 128, c_b = 128, c_h = 0, c_s = 0, c_l = 50,
           c_hex = ''#808080'', c_position = None\<rparr> 6 Triadic ! 4) = 0"
proof -
  let ?B = "\<lparr>c_r = 128, c_g = 128, c_b = 128, c_h = 0, c_s = 0, c_l = 50,
      c_hex = ''#808080'', c_position = None\<rparr>"
  have v: "validHSL ?B" by (simp add: validHSL_def)
  from triadic_target_hues[OF v, of 4] v show ?thesis by (auto simp: Let_def)
qed

subsection \<open>C9: the harmony generator is a function of its arguments\<close>

text \<open>
  Claim C9. \<open>generateComplementaryColors\<close> draws no random number and reads no state, so
  its model takes no oracle: two calls with the same ring count, the same mode and base
  colours that agree in \<open>h\<close>, \<open>s\<close> and \<open>l\<close> (the only fields of the base colour that are
  read) return the same sequence.
\<close>

theorem generateComplementaryColors_deterministic:
  assumes "c_h base1 = c_h base2" "c_s base1 = c_s base2" "c_l base1 = c_l base2"
    and "rings1 = rings2" "mode1 = mode2"
  shows "generateComplementaryColors base1 rings1 mode1 = generateComplementaryColors base2 rings2 mode2"
proof -
  have "ringColor base1 rings1 mode1 i = ringColor base2 rings2 mode2 i" for i
    unfolding ringColor_def bandL_def assms by (rule refl)
  then show ?thesis
    unfolding generateComplementaryColors_def assms(4) by simp
qed

theorem generateComplementaryColors_deterministic_witness:
  "generateComplementaryColors
     \<lparr>c_r = 255, c_g = 0, c_b = 0, c_h = 0, c_s = 100, c_l = 50,
      c_hex = ''#ff0000'', c_position = None\<rparr> 5 SplitComplementary =
   generateComplementaryColors
     \<lparr>c_r = 255, c_g = 0, c_b = 0, c_h = 0, c_s = 100, c_l = 50,
      c_hex = ''#ff0000'', c_position = Some (3, 4)\<rparr> 5 SplitComplementary"
  by (rule generateComplementaryColors_deterministic) simp_all

subsection \<open>C10: the sampler reads inside the buffer\<close>

text \<open>
  Claim C10. When \<open>data.length = 4 * width * height\<close>, every index the sampling loop
  reads (\<open>i\<close>, \<open>i + 1\<close> and \<open>i + 2\<close> for each offset \<open>i\<close> that passes the guard) lies inside
  \<open>data\<close>, and the sampled pixels are the bytes at these indices.
\<close>

theorem sampler_reads_in_bounds:
  assumes "wellFormed imageData"
  shows "(\<forall>j \<in> set (sampleReads imageData). j < length (data imageData)) \<and>
         (\<exists>pps. samplePixels imageData =
            Inr (map (\<lambda>i. (uint (data imageData ! i), uint (data imageData ! (i + 1)),
                           uint (data imageData ! (i + 2)))) (sampleOffsets imageData), pps))"
proof
  show "\<forall>j \<in> set (sampleReads imageData). j < length (data imageData)"
    using sampleReads_in_bounds[OF assms] by blast
  from samplePixels_returns[OF assms] obtain pixels pps
    where "samplePixels imageData = Inr (pixels, pps)" by auto
  with samplePixels_pixels[OF this]
  show "\<exists>pps. samplePixels imageData =
            Inr (map (\<lambda>i. (uint (data imageData ! i), uint (data imageData ! (i + 1)),
                           uint (data imageData ! (i + 2)))) (sampleOffsets imageData), pps)"
    by auto
qed

theorem sampler_reads_in_bounds_witness:
  "wellFormed \<lparr>width = 5, height = 1, data = [1, 2, 3, 4, 5, 6, 7, 8, 9, 10, 11, 12, 13, 14, 15, 16, 17, 18, 19, 20]\<rparr> \<and>
   sampleReads \<lparr>width = 5, height = 1, data = [1, 2, 3, 4, 5, 6, 7, 8, 9, 10, 11, 12, 13, 14, 15, 16, 17, 18, 19, 20]\<rparr>
     = [0, 1, 2, 16, 17, 18] \<and>
   list_all (\<lambda>j. j < length (data \<lparr>width = 5, height = 1, data = [1, 2, 3, 4, 5, 6, 7, 8, 9, 10, 11, 12, 13, 14, 15, 16, 17, 18, 19, 20]\<rparr>))
     (sampleReads \<lparr>width = 5, height = 1, data = [1, 2, 3, 4, 5, 6, 7, 8, 9, 10, 11, 12, 13, 14, 15, 16, 17, 18, 19, 20]\<rparr>)"
proof -
  let ?I = "\<lparr>width = 5, height = 1, data = [1, 2, 3, 4, 5, 6, 7, 8, 9, 10, 11, 12, 13, 14, 15, 16, 17, 18, 19, 20]\<rparr>"
  have w: "wellFormed ?I" by (simp add: wellFormed_def)
  have r: "sampleReads ?I = [0, 1, 2, 16, 17, 18]"
    by (simp add: sampleReads_def sampleOffsets_def sampleCoords_def stride4_def upt_rec)
  from sampler_reads_in_bounds[OF w] w r show ?thesis
    by (simp add: list_all_iff)
qed

end
